theory Spec2Isabelle
  imports Complex_Main "HOL-Library.Log_Nat" "HOL-Library.Sublist"
begin

section \<open>Strings\<close>

text \<open>
  Strings are lists of characters with codes below 256. Of the characters that ECMAScript
  counts as white space or line terminators (the set matched by \<^verbatim>\<open>\s\<close> and stripped by
  \<^verbatim>\<open>trim\<close>), seven have such a code: TAB, LF, VT, FF, CR, SP and NBSP.
\<close>

definition isWhiteSpace :: "char \<Rightarrow> bool" where
  "isWhiteSpace c =
     (c \<in> {CHR 0x09, CHR 0x0A, CHR 0x0B, CHR 0x0C, CHR 0x0D, CHR 0x20, CHR 0xA0})"

text \<open>\<^verbatim>\<open>String.prototype.trim\<close>: white space removed at both ends.\<close>

definition trim :: "string \<Rightarrow> string" where
  "trim s = rev (dropWhile isWhiteSpace (rev (dropWhile isWhiteSpace s)))"

text \<open>
  \<^verbatim>\<open>s.split(/\s+/)\<close>: the pieces between maximal runs of white space. A run at the start
  or at the end of the string leaves an empty piece there, and the empty string splits
  into one empty piece.
\<close>

function split_ws :: "string \<Rightarrow> string list" where
  "split_ws s =
     (if dropWhile (\<lambda>c. \<not> isWhiteSpace c) s = [] then [s]
      else takeWhile (\<lambda>c. \<not> isWhiteSpace c) s
           # split_ws (dropWhile isWhiteSpace (dropWhile (\<lambda>c. \<not> isWhiteSpace c) s)))"
  by pat_completeness auto
termination
proof (relation "measure length")
  show "wf (measure length)" by simp
next
  fix s :: string
  let ?r = "dropWhile (\<lambda>c. \<not> isWhiteSpace c) s"
  assume ne: "?r \<noteq> []"
  then obtain c r' where r: "?r = c # r'" by (cases ?r) auto
  have "length (dropWhile isWhiteSpace ?r) \<le> length r'"
    using hd_dropWhile[OF ne] length_dropWhile_le[of isWhiteSpace r'] by (simp add: r)
  moreover have "length ?r \<le> length s" by (rule length_dropWhile_le)
  ultimately show "(dropWhile isWhiteSpace ?r, s) \<in> measure length" by (simp add: r)
qed

declare split_ws.simps [simp del]

text \<open>
  The local \<^verbatim>\<open>words\<close> of \<^verbatim>\<open>getReadingTimeSeconds\<close>:
  \<^verbatim>\<open>text.trim().split(/\s+/).filter(Boolean).length\<close>; the filter keeps the non-empty pieces.
\<close>

definition "words" :: "string \<Rightarrow> nat" where
  "words text = length (filter (\<lambda>w. w \<noteq> []) (split_ws (trim text)))"

text \<open>
  The same count in the words of the specification, the number of whitespace-separated
  words of the trimmed content: a word starts at every character that is not white space
  and that follows white space or the start of the text. The flag tells whether the
  previous character was white space.
\<close>

fun word_starts :: "bool \<Rightarrow> string \<Rightarrow> nat" where
  "word_starts after_ws [] = 0"
| "word_starts after_ws (c # cs) =
     (if \<not> isWhiteSpace c \<and> after_ws then 1 else 0) + word_starts (isWhiteSpace c) cs"

definition spec_word_count :: "string \<Rightarrow> nat" where
  "spec_word_count text = word_starts True (trim text)"

section \<open>Numbers\<close>

text \<open>
  A finite Number is the rational it denotes. Every arithmetic operation returns the
  binary64 value nearest to the exact result, ties going to the even significand: a
  positive \<open>x\<close> with \<open>2 powi e \<le> x < 2 powi (e + 1)\<close> is scaled to a significand between
  \<open>2 ^ 52\<close> and \<open>2 ^ 53\<close>, rounded to an integer and scaled back. The exponent range is not
  bounded here: the quantities of this program are zero or lie between a quarter and the
  length of a string, far from the subnormal and the overflow thresholds of binary64. A
  length is an integer below \<open>2 ^ 53\<close> and is a Number as it stands.
\<close>

definition round_half_even :: "rat \<Rightarrow> int" where
  "round_half_even q =
     (let f = \<lfloor>q\<rfloor>; r = q - of_int f
      in if r < 1 / 2 then f
         else if 1 / 2 < r then f + 1
         else if even f then f else f + 1)"

text \<open>The binary exponent of a positive rational: the integer \<open>e\<close> with
  \<open>2 powi e \<le> x < 2 powi (e + 1)\<close>.\<close>

definition ilog2 :: "rat \<Rightarrow> int" where
  "ilog2 x = (if 1 \<le> x then bitlen \<lfloor>x\<rfloor> - 1 else - bitlen (\<lceil>1 / x\<rceil> - 1))"

definition round_pos :: "rat \<Rightarrow> rat" where
  "round_pos x =
     of_int (round_half_even (x * 2 powi (52 - ilog2 x))) * 2 powi (ilog2 x - 52)"

definition round64 :: "rat \<Rightarrow> rat" where
  "round64 x = (if x = 0 then 0 else if 0 < x then round_pos x else - round_pos (- x))"

definition num_add :: "rat \<Rightarrow> rat \<Rightarrow> rat" where
  "num_add a b = round64 (a + b)"

definition num_sub :: "rat \<Rightarrow> rat \<Rightarrow> rat" where
  "num_sub a b = round64 (a - b)"

definition num_mul :: "rat \<Rightarrow> rat \<Rightarrow> rat" where
  "num_mul a b = round64 (a * b)"

definition num_div :: "rat \<Rightarrow> rat \<Rightarrow> rat" where
  "num_div a b = round64 (a / b)"

section \<open>Reading time and fade delay\<close>

text \<open>
  \<^verbatim>\<open>getReadingTimeSeconds\<close> divides the word count by \<^verbatim>\<open>200 / 60\<close>, and
  \<^verbatim>\<open>getAIMessageFadeDelayMs\<close> adds the base of four seconds, clamps to 5..15 seconds and
  converts to milliseconds. \<^verbatim>\<open>Math.max\<close> and \<^verbatim>\<open>Math.min\<close> are exact.
\<close>

definition getReadingTimeSeconds :: "string \<Rightarrow> rat" where
  "getReadingTimeSeconds text = num_div (of_nat (words text)) (num_div 200 60)"

definition getAIMessageFadeDelayMs :: "string \<Rightarrow> rat" where
  "getAIMessageFadeDelayMs text =
     (let readingSec = getReadingTimeSeconds text;
          totalSec = num_add 4 readingSec;
          clamped = max 5 (min 15 totalSec)
      in num_mul clamped 1000)"

text \<open>The delay as a function of the number of words.\<close>

definition fade_delay_at :: "nat \<Rightarrow> rat" where
  "fade_delay_at n =
     num_mul (max 5 (min 15 (num_add 4 (num_div (of_nat n) (num_div 200 60))))) 1000"

section \<open>The interaction controller\<close>

text \<open>
  A message of the history. The role is the string the program stores: \<^verbatim>\<open>"user"\<close> or
  \<^verbatim>\<open>"assistant"\<close> on the page, any string in a request that reaches the relay.
\<close>

record message =
  role :: string
  content :: string

text \<open>
  The state of \<^verbatim>\<open>DiaryPage\<close>: its state variables and its refs. \<open>fadeTimerLog\<close> is not a
  variable of the program: it records, in order, every call of \<^verbatim>\<open>setTimeout\<close> made by the
  fade-scheduling effect, with the message index and the delay in milliseconds.
  \<open>assistantFadeTimeoutsRef\<close> maps an index to the delay of its pending timer.
\<close>

record state =
  aboutOpen :: bool
  scrollFlash :: "(string \<times> rat \<times> rat) option"
  clickPrompt :: "(rat \<times> rat) option"
  inputValue :: string
  inputRevealed :: bool
  messages :: "message list"
  currentResponse :: string
  isLoading :: bool
  fadingUserText :: "string option"
  fadingAssistantIndices :: "nat set"
  scheduledFadeRef :: "nat set"
  assistantFadeTimeoutsRef :: "nat \<rightharpoonup> rat"
  lastScrollFlashTimeRef :: rat
  fadeTimerLog :: "(nat \<times> rat) list"

definition initial :: state where
  "initial =
     \<lparr>aboutOpen = False, scrollFlash = None, clickPrompt = None, inputValue = [],
      inputRevealed = False, messages = [], currentResponse = [], isLoading = False,
      fadingUserText = None, fadingAssistantIndices = {}, scheduledFadeRef = {},
      assistantFadeTimeoutsRef = Map.empty, lastScrollFlashTimeRef = 0, fadeTimerLog = []\<rparr>"

definition SCROLL_FLASH_THROTTLE_MS :: rat where
  "SCROLL_FLASH_THROTTLE_MS = 450"

subsection \<open>Submitting a message\<close>

text \<open>A value that was thrown: an \<^verbatim>\<open>Error\<close> with its message, a string, or anything else.\<close>

datatype thrown = ErrorObject string | StringValue string | OtherValue

text \<open>
  The decoded body of the relay's reply, at its declared type
  \<^verbatim>\<open>{ error?: string; content?: string }\<close>, and what \<^verbatim>\<open>fetch\<close> gives: a rejection, or a
  response with its \<^verbatim>\<open>ok\<close> flag and the result of \<^verbatim>\<open>res.json()\<close> (\<open>None\<close> when that
  rejects).
\<close>

datatype reply = Reply (reply_error: "string option") (reply_content: "string option")

datatype fetch_result = Rejected thrown | Response bool "reply option"

text \<open>
  The synchronous part of \<^verbatim>\<open>sendMessage\<close>, up to the call of \<^verbatim>\<open>fetch\<close>: \<open>None\<close> when the
  function returns at once, otherwise the updated state and the message list posted to
  \<^verbatim>\<open>/api/chat\<close>. The state is updated before the request is built.
\<close>

definition sendMessage_begin :: "state \<Rightarrow> (state \<times> message list) option" where
  "sendMessage_begin s =
     (let text = trim (inputValue s)
      in if text = [] \<or> isLoading s then None
         else
           let s1 = s\<lparr>inputValue := [],
                      fadingUserText := Some text,
                      messages := messages s @ [\<lparr>role = ''user'', content = text\<rparr>],
                      isLoading := True,
                      currentResponse := []\<rparr>;
               history = messages s @ [\<lparr>role = ''user'', content = text\<rparr>]
           in Some (s1, history))"

text \<open>
  The body of the \<^verbatim>\<open>try\<close> block from the settled \<^verbatim>\<open>fetch\<close> to \<^verbatim>\<open>fullText\<close>: \<open>Inl\<close> is
  the value thrown, \<open>Inr\<close> the text to reveal.
\<close>

definition sendMessage_settle :: "fetch_result \<Rightarrow> thrown + string" where
  "sendMessage_settle r =
     (case r of
        Rejected err \<Rightarrow> Inl err
      | Response ok body \<Rightarrow>
          (let data = (case body of
                         Some d \<Rightarrow> d
                       | None \<Rightarrow>
                           Reply (Some (if ok then ''Invalid response.'' else ''Request failed.''))
                             None)
           in if \<not> ok then
                Inl (ErrorObject
                  (case reply_error data of
                     None \<Rightarrow> ''Request failed''
                   | Some e \<Rightarrow> if e = [] then ''Request failed'' else e))
              else
                let fullText = (case reply_content data of None \<Rightarrow> [] | Some c \<Rightarrow> trim c)
                in if fullText = [] then
                     Inl (ErrorObject ''The diary had nothing to say. Try rephrasing.'')
                   else Inr fullText))"

text \<open>The \<^verbatim>\<open>catch\<close> and \<^verbatim>\<open>finally\<close> blocks.\<close>

definition sendMessage_catch :: "thrown \<Rightarrow> state \<Rightarrow> state" where
  "sendMessage_catch err s =
     (let message =
            (case err of
               ErrorObject m \<Rightarrow> m
             | _ \<Rightarrow> ''Something went wrong. Perhaps the diary is reluctant to reply just now. Try again.'')
      in s\<lparr>messages := messages s @ [\<lparr>role = ''assistant'', content = message\<rparr>],
           isLoading := False\<rparr>)"

text \<open>
  The reveal loop writes the prefixes of \<^verbatim>\<open>fullText\<close> of length \<open>0\<close> to
  \<^verbatim>\<open>fullText.length\<close> into \<^verbatim>\<open>currentResponse\<close>; then the reply is appended, the slot is
  cleared and \<^verbatim>\<open>finally\<close> clears the loading flag.
\<close>

definition reveal_tick :: "string \<Rightarrow> nat \<Rightarrow> state \<Rightarrow> state" where
  "reveal_tick fullText i s = s\<lparr>currentResponse := take i fullText\<rparr>"

definition reveal_loop :: "string \<Rightarrow> state \<Rightarrow> state" where
  "reveal_loop fullText s = foldl (\<lambda>s i. reveal_tick fullText i s) s [0..<Suc (length fullText)]"

definition reveal_done :: "string \<Rightarrow> state \<Rightarrow> state" where
  "reveal_done fullText s =
     s\<lparr>messages := messages s @ [\<lparr>role = ''assistant'', content = fullText\<rparr>],
       currentResponse := [],
       isLoading := False\<rparr>"

text \<open>The rest of \<^verbatim>\<open>sendMessage\<close> once \<^verbatim>\<open>fetch\<close> has settled.\<close>

definition sendMessage_resume :: "fetch_result \<Rightarrow> state \<Rightarrow> state" where
  "sendMessage_resume r s =
     (case sendMessage_settle r of
        Inl err \<Rightarrow> sendMessage_catch err s
      | Inr fullText \<Rightarrow> reveal_done fullText (reveal_loop fullText s))"

text \<open>
  One whole call, with the network as a function from the posted list to what \<^verbatim>\<open>fetch\<close>
  gives: the final state and the list of requests made.
\<close>

definition sendMessage :: "(message list \<Rightarrow> fetch_result) \<Rightarrow> state \<Rightarrow> state \<times> message list list" where
  "sendMessage net s =
     (case sendMessage_begin s of
        None \<Rightarrow> (s, [])
      | Some (s1, history) \<Rightarrow> (sendMessage_resume (net history) s1, [history]))"

subsection \<open>Fade scheduling\<close>

text \<open>
  The effect that runs when \<^verbatim>\<open>messages\<close> changes: \<^verbatim>\<open>messages.forEach\<close> with the index,
  skipping what is not an assistant message and what \<^verbatim>\<open>scheduledFadeRef\<close> already holds.
\<close>

definition schedule_one :: "nat \<Rightarrow> message \<Rightarrow> state \<Rightarrow> state" where
  "schedule_one index msg s =
     (if role msg \<noteq> ''assistant'' \<or> index \<in> scheduledFadeRef s then s
      else
        let delayMs = getAIMessageFadeDelayMs (content msg)
        in s\<lparr>scheduledFadeRef := insert index (scheduledFadeRef s),
             fadeTimerLog := fadeTimerLog s @ [(index, delayMs)],
             assistantFadeTimeoutsRef := (assistantFadeTimeoutsRef s)(index \<mapsto> delayMs)\<rparr>)"

fun schedule_from :: "nat \<Rightarrow> message list \<Rightarrow> state \<Rightarrow> state" where
  "schedule_from index [] s = s"
| "schedule_from index (msg # rest) s = schedule_from (Suc index) rest (schedule_one index msg s)"

definition schedule_fades :: "state \<Rightarrow> state" where
  "schedule_fades s = schedule_from 0 (messages s) s"

text \<open>The timer's callback.\<close>

definition fade_timer_fired :: "nat \<Rightarrow> state \<Rightarrow> state" where
  "fade_timer_fired index s =
     s\<lparr>fadingAssistantIndices := insert index (fadingAssistantIndices s),
       assistantFadeTimeoutsRef := (assistantFadeTimeoutsRef s)(index := None)\<rparr>"

subsection \<open>The other callbacks\<close>

text \<open>
  \<^verbatim>\<open>showScrollFlash\<close> draws a phrase and a position at random inside the container; the
  phrase and the position drawn are given here, \<open>None\<close> standing for a missing container.
\<close>

definition showScrollFlash :: "(string \<times> rat \<times> rat) option \<Rightarrow> state \<Rightarrow> state" where
  "showScrollFlash drawn s = (case drawn of None \<Rightarrow> s | Some f \<Rightarrow> s\<lparr>scrollFlash := Some f\<rparr>)"

definition handleScroll :: "rat \<Rightarrow> (string \<times> rat \<times> rat) option \<Rightarrow> state \<Rightarrow> state" where
  "handleScroll now drawn s =
     (if num_sub now (lastScrollFlashTimeRef s) < SCROLL_FLASH_THROTTLE_MS then s
      else showScrollFlash drawn (s\<lparr>lastScrollFlashTimeRef := now\<rparr>))"

text \<open>
  \<^verbatim>\<open>handleClick\<close>: \<open>excluded\<close> tells whether the target lies in the About button or a footer
  link, \<open>rect\<close> is the left and top of the container when there is one.
\<close>

definition handleClick :: "bool \<Rightarrow> (rat \<times> rat) option \<Rightarrow> rat \<Rightarrow> rat \<Rightarrow> state \<Rightarrow> state" where
  "handleClick excluded rect clientX clientY s =
     (if messages s \<noteq> [] \<or> inputValue s \<noteq> [] then s
      else if excluded then s
      else
        let s1 = s\<lparr>inputRevealed := True\<rparr>
        in case rect of
             None \<Rightarrow> s1
           | Some (rect_left, rect_top) \<Rightarrow>
               s1\<lparr>clickPrompt := Some (num_sub clientX rect_left, num_sub clientY rect_top)\<rparr>)"

text \<open>
  The document's \<^verbatim>\<open>keydown\<close> listener: \<open>focused\<close> tells whether the input has the focus,
  \<open>modified\<close> whether Ctrl, Meta or Alt is held.
\<close>

definition onKeyDown :: "string \<Rightarrow> bool \<Rightarrow> bool \<Rightarrow> state \<Rightarrow> state" where
  "onKeyDown key modified focused s =
     (if messages s \<noteq> [] \<or> isLoading s then s
      else if focused then s
      else if length key = 1 \<and> \<not> modified \<and> key \<noteq> ''Enter'' then
        s\<lparr>inputRevealed := True, inputValue := inputValue s @ key\<rparr>
      else s)"

text \<open>The events of the page, and the state after each.\<close>

datatype event =
    Scroll rat "(string \<times> rat \<times> rat) option"
  | ScrollFlashExpired
  | Click bool "(rat \<times> rat) option" rat rat
  | ClickPromptExpired
  | DocumentKey string bool bool
  | InputChanged string
  | InputKey string bool
  | FetchSettled fetch_result
  | RevealTick string nat
  | RevealDone string
  | MessagesEffect
  | FadeTimerFired nat
  | UserFadeComplete
  | SetAboutOpen bool
  | Unmount

text \<open>
  \<open>InputKey\<close> is \<^verbatim>\<open>handleKeyDown\<close> on the input, which calls \<^verbatim>\<open>sendMessage\<close> on Enter without
  Shift; the request it makes is answered by a later \<open>FetchSettled\<close>. A successful
  \<open>FetchSettled\<close> changes nothing by itself: the reveal follows in \<open>RevealTick\<close> and
  \<open>RevealDone\<close> events, between which other events may occur.
\<close>

fun step :: "event \<Rightarrow> state \<Rightarrow> state" where
  "step (Scroll now drawn) s = handleScroll now drawn s"
| "step ScrollFlashExpired s = s\<lparr>scrollFlash := None\<rparr>"
| "step (Click excluded rect clientX clientY) s = handleClick excluded rect clientX clientY s"
| "step ClickPromptExpired s = s\<lparr>clickPrompt := None\<rparr>"
| "step (DocumentKey key modified focused) s = onKeyDown key modified focused s"
| "step (InputChanged v) s = s\<lparr>inputValue := v\<rparr>"
| "step (InputKey key shift) s =
     (if key = ''Enter'' \<and> \<not> shift then
        (case sendMessage_begin s of None \<Rightarrow> s | Some (s1, history) \<Rightarrow> s1)
      else s)"
| "step (FetchSettled r) s =
     (case sendMessage_settle r of Inl err \<Rightarrow> sendMessage_catch err s | Inr fullText \<Rightarrow> s)"
| "step (RevealTick fullText i) s = reveal_tick fullText i s"
| "step (RevealDone fullText) s = reveal_done fullText s"
| "step MessagesEffect s = schedule_fades s"
| "step (FadeTimerFired index) s = fade_timer_fired index s"
| "step UserFadeComplete s = s\<lparr>fadingUserText := None\<rparr>"
| "step (SetAboutOpen b) s = s\<lparr>aboutOpen := b\<rparr>"
| "step Unmount s = s\<lparr>assistantFadeTimeoutsRef := Map.empty\<rparr>"

definition run :: "event list \<Rightarrow> state \<Rightarrow> state" where
  "run evs s = foldl (\<lambda>s e. step e s) s evs"

section \<open>The chat relay\<close>

text \<open>
  A JSON value, as \<^verbatim>\<open>req.json()\<close> gives it. An object is the list of its members in the
  order of the text; where a key is repeated the last member counts.
\<close>

datatype json =
    JNull
  | JBool bool
  | JNumber rat
  | JString string
  | JArray "json list"
  | JObject "(string \<times> json) list"

text \<open>
  Reading a property of a value that is not \<^verbatim>\<open>null\<close>: \<open>None\<close> is \<^verbatim>\<open>undefined\<close>. Of the
  properties the handler reads (\<^verbatim>\<open>messages\<close>, \<^verbatim>\<open>role\<close>, \<^verbatim>\<open>content\<close>) only an object can
  have one. Reading a property of \<^verbatim>\<open>null\<close> throws a \<^verbatim>\<open>TypeError\<close>, which the handler's
  code below writes out.
\<close>

fun get_property :: "json \<Rightarrow> string \<Rightarrow> json option" where
  "get_property (JObject members) key = map_of (rev members) key"
| "get_property _ key = None"

text \<open>
  The two \<^verbatim>\<open>TypeError\<close>s the handler can raise. Their message text is the engine's, given
  to the handler as a function.
\<close>

datatype type_error = ReadPropertyOfNull string | NotAFunction string

text \<open>What \<^verbatim>\<open>req.json()\<close> gives: a rejection or the value parsed.\<close>

datatype request_body = InvalidJson | Json json

text \<open>
  The constant \<^verbatim>\<open>messages\<close> of the handler: the \<^verbatim>\<open>messages\<close> property of the body when
  that is an array, \<^verbatim>\<open>null\<close> (here \<open>None\<close>) otherwise. The optional chaining makes a
  \<^verbatim>\<open>null\<close> body give \<^verbatim>\<open>undefined\<close>, as \<open>get_property\<close> does. The cast to
  \<^verbatim>\<open>{ role: string; content: string }[]\<close> checks nothing: the elements are any JSON values.
\<close>

definition request_messages :: "json \<Rightarrow> json list option" where
  "request_messages body =
     (case get_property body ''messages'' of
        Some (JArray elements) \<Rightarrow> Some elements
      | _ \<Rightarrow> None)"

text \<open>
  A turn of the history given to the model session: its role, and its text, which is
  whatever the \<^verbatim>\<open>content\<close> property of the element was.
\<close>

type_synonym chat_content = "string \<times> json option"

text \<open>
  The hosted model session is outside the program. \<^verbatim>\<open>startChat\<close> takes the history and
  throws or gives a chat; \<^verbatim>\<open>chat.sendMessage\<close> takes the new input, and it and
  \<^verbatim>\<open>response.text()\<close> throw, or give the text generated, or a value that is not a
  string.
\<close>

datatype model_result = ModelThrows thrown | ModelText string | ModelNoString

datatype chat_start = StartChatThrows thrown | Chat "string \<Rightarrow> model_result"

type_synonym model = "chat_content list \<Rightarrow> chat_start"

text \<open>What the handler did with the model session, in order.\<close>

datatype session_call = StartChat "chat_content list" | ChatSendMessage string

datatype payload = ErrorBody string | ContentBody string

record response =
  status :: nat
  payload :: payload

definition toErrorMessage :: "thrown \<Rightarrow> string" where
  "toErrorMessage err =
     (case err of
        ErrorObject m \<Rightarrow> m
      | StringValue v \<Rightarrow> v
      | OtherValue \<Rightarrow> ''Chat failed.'')"

text \<open>
  \<^verbatim>\<open>POST\<close>, given the value of \<^verbatim>\<open>GEMINI_API_KEY\<close> in the environment, the engine's
  messages, the request body and the model session: the response, and the calls made on
  the model session. \<^verbatim>\<open>messages.filter((m) => m.role === "user")\<close> throws at an element
  that is \<^verbatim>\<open>null\<close>; \<^verbatim>\<open>.pop()\<close> is the head of the reversed filtered list;
  \<^verbatim>\<open>lastUserMessage?.content?.trim()\<close> is \<^verbatim>\<open>undefined\<close> for a content that is missing or
  \<^verbatim>\<open>null\<close>, the trimmed string for a string, and throws for any other content, which has
  no function \<^verbatim>\<open>trim\<close>; \<^verbatim>\<open>slice(0, -1).slice(-20)\<close> drops the last element and keeps the
  last twenty of the rest. Whatever is thrown is caught at the end of the handler and
  answered with 500.
\<close>

definition POST ::
  "string option \<Rightarrow> (type_error \<Rightarrow> string) \<Rightarrow> request_body \<Rightarrow> model
     \<Rightarrow> response \<times> session_call list" where
  "POST apiKey engine body model =
     (if apiKey = None \<or> apiKey = Some [] then
        (\<lparr>status = 500, payload = ErrorBody ''GEMINI_API_KEY is not configured.''\<rparr>, [])
      else
        (case body of
           InvalidJson \<Rightarrow> (\<lparr>status = 400, payload = ErrorBody ''Invalid JSON body.''\<rparr>, [])
         | Json parsed \<Rightarrow>
             (case request_messages parsed of
                None \<Rightarrow>
                  (\<lparr>status = 400, payload = ErrorBody ''messages array is required.''\<rparr>, [])
              | Some msgs \<Rightarrow>
                  (if msgs = [] then
                     (\<lparr>status = 400, payload = ErrorBody ''messages array is required.''\<rparr>, [])
                   else if JNull \<in> set msgs then
                     (\<lparr>status = 500,
                       payload = ErrorBody
                         (toErrorMessage (ErrorObject (engine (ReadPropertyOfNull ''role''))))\<rparr>,
                      [])
                   else
                     (case rev (filter (\<lambda>m. get_property m ''role'' = Some (JString ''user''))
                                 msgs) of
                        [] \<Rightarrow>
                          (\<lparr>status = 400, payload = ErrorBody ''No user message content.''\<rparr>, [])
                      | lastUserMessage # _ \<Rightarrow>
                          (case get_property lastUserMessage ''content'' of
                             None \<Rightarrow>
                               (\<lparr>status = 400,
                                 payload = ErrorBody ''No user message content.''\<rparr>, [])
                           | Some JNull \<Rightarrow>
                               (\<lparr>status = 400,
                                 payload = ErrorBody ''No user message content.''\<rparr>, [])
                           | Some (JString text) \<Rightarrow>
                               (if trim text = [] then
                                  (\<lparr>status = 400,
                                    payload = ErrorBody ''No user message content.''\<rparr>, [])
                                else
                                  (let historyMessages =
                                         drop (length (butlast msgs) - 20) (butlast msgs);
                                       history =
                                         map (\<lambda>m. (if get_property m ''role''
                                                         = Some (JString ''user'')
                                                    then ''user'' else ''model'',
                                                    get_property m ''content''))
                                           historyMessages
                                   in (case model history of
                                         StartChatThrows err \<Rightarrow>
                                           (\<lparr>status = 500,
                                             payload = ErrorBody (toErrorMessage err)\<rparr>,
                                            [StartChat history])
                                       | Chat chat_sendMessage \<Rightarrow>
                                           (case chat_sendMessage (trim text) of
                                              ModelThrows err \<Rightarrow>
                                                (\<lparr>status = 500,
                                                  payload = ErrorBody (toErrorMessage err)\<rparr>,
                                                 [StartChat history, ChatSendMessage (trim text)])
                                            | ModelText generated \<Rightarrow>
                                                (if trim generated = [] then
                                                   (\<lparr>status = 502,
                                                     payload = ErrorBody ''The diary had nothing to say. It may have been blocked or returned no text. Try rephrasing.''\<rparr>,
                                                    [StartChat history,
                                                     ChatSendMessage (trim text)])
                                                 else
                                                   (\<lparr>status = 200,
                                                     payload = ContentBody (trim generated)\<rparr>,
                                                    [StartChat history,
                                                     ChatSendMessage (trim text)]))
                                            | ModelNoString \<Rightarrow>
                                                (\<lparr>status = 502,
                                                  payload = ErrorBody ''The diary had nothing to say. It may have been blocked or returned no text. Try rephrasing.''\<rparr>,
                                                 [StartChat history,
                                                  ChatSendMessage (trim text)])))))
                           | Some _ \<Rightarrow>
                               (\<lparr>status = 500,
                                 payload = ErrorBody
                                   (toErrorMessage (ErrorObject (engine (NotAFunction ''trim''))))\<rparr>,
                                [])))))))"

text \<open>
  An element of the list that is a turn as the handler's type declares it, an object with
  a string role and a string content, read as a message; and the final user turn in the
  words of the specification: the last turn of a list whose role is \<^verbatim>\<open>"user"\<close>, if there
  is one.
\<close>

definition read_turn :: "json \<Rightarrow> message option" where
  "read_turn m =
     (case (get_property m ''role'', get_property m ''content'') of
        (Some (JString r), Some (JString c)) \<Rightarrow> Some \<lparr>role = r, content = c\<rparr>
      | _ \<Rightarrow> None)"

fun final_user_turn :: "message list \<Rightarrow> message option" where
  "final_user_turn [] = None"
| "final_user_turn (m # ms) =
     (case final_user_turn ms of
        Some u \<Rightarrow> Some u
      | None \<Rightarrow> if role m = ''user'' then Some m else None)"

section \<open>Rounding to binary64\<close>

lemma bitlen_pos: "0 < m \<Longrightarrow> 1 \<le> bitlen m"
  using bitlen_eq_zero_iff[of m] bitlen_nonneg[of m] by linarith

lemma pow2_le_of_int: "(2::int) ^ n \<le> m \<Longrightarrow> (2::rat) ^ n \<le> of_int m"
proof -
  assume "(2::int) ^ n \<le> m"
  then have "(of_int ((2::int) ^ n) :: rat) \<le> of_int m" by (simp only: of_int_le_iff)
  then show ?thesis by simp
qed

lemma pow2i_mult: "(2::rat) powi a * 2 powi b = 2 powi (a + b)"
  by (simp add: power_int_add)

text \<open>The exponent brackets its argument, on both sides of one.\<close>

lemma ilog2_ge1:
  assumes "1 \<le> x"
  shows "2 powi (ilog2 x) \<le> x" and "x < 2 powi (ilog2 x + 1)"
proof -
  let ?m = "\<lfloor>x\<rfloor>"
  from assms have m: "0 < ?m" by simp
  have k: "1 \<le> bitlen ?m" by (rule bitlen_pos[OF m])
  have e: "ilog2 x = bitlen ?m - 1" using assms by (simp add: ilog2_def)
  from bitlen_bounds[OF m] have lo: "(2::int) ^ nat (bitlen ?m - 1) \<le> ?m"
    and hi: "?m < 2 ^ nat (bitlen ?m)" by simp_all
  have "(2::rat) ^ nat (bitlen ?m - 1) \<le> of_int ?m" by (rule pow2_le_of_int[OF lo])
  also have "\<dots> \<le> x" by simp
  finally show "2 powi (ilog2 x) \<le> x" using k by (simp add: e power_int_nonneg_exp)
  from hi have "?m + 1 \<le> 2 ^ nat (bitlen ?m)" by simp
  then have "(of_int (?m + 1) :: rat) \<le> of_int ((2::int) ^ nat (bitlen ?m))"
    by (simp only: of_int_le_iff)
  then have "of_int ?m + 1 \<le> (2::rat) ^ nat (bitlen ?m)" by simp
  moreover have "x < of_int ?m + 1" by linarith
  ultimately have "x < (2::rat) ^ nat (bitlen ?m)" by linarith
  then show "x < 2 powi (ilog2 x + 1)" using k by (simp add: e power_int_nonneg_exp)
qed

lemma ilog2_lt1:
  assumes "0 < x" "x < 1"
  shows "2 powi (ilog2 x) \<le> x" and "x < 2 powi (ilog2 x + 1)"
proof -
  let ?c = "\<lceil>1 / x\<rceil>"
  let ?k = "bitlen (?c - 1)"
  from assms have y: "1 < 1 / x" by simp
  then have c: "0 < ?c - 1" by (simp add: less_ceiling_iff)
  have k: "1 \<le> ?k" by (rule bitlen_pos[OF c])
  have e: "ilog2 x = - ?k" using assms by (simp add: ilog2_def)
  from bitlen_bounds[OF c] have lo: "(2::int) ^ nat (?k - 1) \<le> ?c - 1"
    and hi: "?c - 1 < 2 ^ nat ?k" by simp_all
  have p: "(0::rat) < 2 ^ nat ?k" "(0::rat) < 2 ^ nat (?k - 1)" by simp_all
  from hi have "?c \<le> 2 ^ nat ?k" by simp
  then have "(of_int ?c :: rat) \<le> of_int ((2::int) ^ nat ?k)" by (simp only: of_int_le_iff)
  then have "of_int ?c \<le> (2::rat) ^ nat ?k" by simp
  moreover have "1 / x \<le> of_int ?c" by simp
  ultimately have "1 / x \<le> (2::rat) ^ nat ?k" by linarith
  then have "1 \<le> x * 2 ^ nat ?k" using assms(1) by (simp add: field_simps)
  then have "1 / 2 ^ nat ?k \<le> x" using p(1) by (simp add: field_simps)
  then show "2 powi (ilog2 x) \<le> x" using k
    by (simp add: e power_int_minus_divide power_int_nonneg_exp)
  have "(2::rat) ^ nat (?k - 1) \<le> of_int (?c - 1)" by (rule pow2_le_of_int[OF lo])
  moreover have "of_int (?c - 1) < 1 / x" using ceiling_correct[of "1 / x"] by simp
  ultimately have "(2::rat) ^ nat (?k - 1) < 1 / x" by linarith
  then have "x * 2 ^ nat (?k - 1) < 1" using assms(1) by (simp add: field_simps)
  then have "x < 1 / 2 ^ nat (?k - 1)" using p(2) by (simp add: field_simps)
  moreover have "2 powi (ilog2 x + 1) = (1::rat) / 2 ^ nat (?k - 1)"
  proof -
    have "ilog2 x + 1 = - (?k - 1)" by (simp add: e)
    then have "(2::rat) powi (ilog2 x + 1) = 2 powi (- (?k - 1))" by simp
    also have "\<dots> = 1 / 2 powi (?k - 1)" by (rule power_int_minus_divide)
    also have "\<dots> = 1 / 2 ^ nat (?k - 1)" using k by (simp add: power_int_nonneg_exp)
    finally show ?thesis .
  qed
  ultimately show "x < 2 powi (ilog2 x + 1)" by simp
qed

lemma ilog2_bounds:
  assumes "0 < x"
  shows "2 powi (ilog2 x) \<le> x" and "x < 2 powi (ilog2 x + 1)"
  using assms ilog2_ge1[of x] ilog2_lt1[of x] by (cases "1 \<le> x"; simp)+

lemma ilog2_mono:
  assumes "0 < x" "x \<le> y"
  shows "ilog2 x \<le> ilog2 y"
proof (rule ccontr)
  assume "\<not> ilog2 x \<le> ilog2 y"
  then have "ilog2 y + 1 \<le> ilog2 x" by simp
  then have "(2::rat) powi (ilog2 y + 1) \<le> 2 powi (ilog2 x)"
    by (rule power_int_increasing) simp
  also have "\<dots> \<le> x" by (rule ilog2_bounds(1)[OF assms(1)])
  also have "\<dots> \<le> y" by (rule assms(2))
  also have "\<dots> < 2 powi (ilog2 y + 1)" using assms by (intro ilog2_bounds(2)) simp
  finally show False by simp
qed

lemma ilog2_eqI:
  assumes "2 powi e \<le> x" "x < 2 powi (e + 1)"
  shows "ilog2 x = e"
proof -
  have "(0::rat) < 2 powi e" by simp
  with assms(1) have x: "0 < x" by linarith
  have "\<not> ilog2 x < e"
  proof
    assume "ilog2 x < e"
    then have "ilog2 x + 1 \<le> e" by simp
    then have "(2::rat) powi (ilog2 x + 1) \<le> 2 powi e" by (rule power_int_increasing) simp
    with assms(1) ilog2_bounds(2)[OF x] show False by linarith
  qed
  moreover have "\<not> e < ilog2 x"
  proof
    assume "e < ilog2 x"
    then have "e + 1 \<le> ilog2 x" by simp
    then have "(2::rat) powi (e + 1) \<le> 2 powi (ilog2 x)" by (rule power_int_increasing) simp
    with assms(2) ilog2_bounds(1)[OF x] show False by linarith
  qed
  ultimately show ?thesis by linarith
qed

text \<open>Rounding to an integer: integers are fixed, and the order is kept.\<close>

lemma round_half_even_of_int: "round_half_even (of_int m) = m"
  by (simp add: round_half_even_def)

lemma floor_le_round_half_even: "\<lfloor>q\<rfloor> \<le> round_half_even q"
  by (simp add: round_half_even_def Let_def)

lemma round_half_even_le: "round_half_even q \<le> \<lfloor>q\<rfloor> + 1"
  by (simp add: round_half_even_def Let_def)

lemma round_half_even_mono:
  assumes "q \<le> q'"
  shows "round_half_even q \<le> round_half_even q'"
proof (cases "\<lfloor>q\<rfloor> = \<lfloor>q'\<rfloor>")
  case True
  then show ?thesis using assms
    by (auto simp add: round_half_even_def Let_def)
next
  case False
  moreover have "\<lfloor>q\<rfloor> \<le> \<lfloor>q'\<rfloor>" using assms by (rule floor_mono)
  ultimately have "\<lfloor>q\<rfloor> + 1 \<le> \<lfloor>q'\<rfloor>" by simp
  then show ?thesis
    using round_half_even_le[of q] floor_le_round_half_even[of q'] by linarith
qed

lemma round_half_even_near:
  assumes "\<bar>q - of_int m\<bar> < 1 / 2"
  shows "round_half_even q = m"
proof (cases "of_int m \<le> q")
  case True
  with assms have "\<lfloor>q\<rfloor> = m" by (intro floor_unique) (simp_all add: abs_if split: if_splits)
  then show ?thesis using assms True by (simp add: round_half_even_def Let_def)
next
  case False
  with assms have "\<lfloor>q\<rfloor> = m - 1"
    by (intro floor_unique) (simp_all add: abs_if split: if_splits)
  then show ?thesis using assms False
    by (simp add: round_half_even_def Let_def abs_if split: if_splits)
qed

lemma round_half_even_tie:
  assumes "\<bar>q - of_int m\<bar> = 1 / 2" "even m"
  shows "round_half_even q = m"
proof (cases "of_int m \<le> q")
  case True
  with assms(1) have q: "q = of_int m + 1 / 2" by (simp add: abs_if split: if_splits)
  then have "\<lfloor>q\<rfloor> = m" by (intro floor_unique) simp_all
  then show ?thesis using assms(2) q by (simp add: round_half_even_def Let_def)
next
  case False
  with assms(1) have q: "q = of_int m - 1 / 2" by (simp add: abs_if split: if_splits)
  then have "\<lfloor>q\<rfloor> = m - 1" by (intro floor_unique) simp_all
  then show ?thesis using assms(2) q by (simp add: round_half_even_def Let_def)
qed

lemma round_half_even_ge_pow2: "2 ^ n \<le> q \<Longrightarrow> 2 ^ n \<le> round_half_even q"
proof -
  assume "2 ^ n \<le> q"
  then have "of_int (2 ^ n) \<le> q" by simp
  from round_half_even_mono[OF this] show ?thesis by (simp only: round_half_even_of_int)
qed

lemma round_half_even_le_pow2: "q \<le> 2 ^ n \<Longrightarrow> round_half_even q \<le> 2 ^ n"
proof -
  assume "q \<le> 2 ^ n"
  then have "q \<le> of_int (2 ^ n)" by simp
  from round_half_even_mono[OF this] show ?thesis by (simp only: round_half_even_of_int)
qed

text \<open>The scaled significand and the rounded value stay within their binade.\<close>

lemma scaled_bounds:
  assumes "0 < x"
  shows "2 ^ 52 \<le> x * 2 powi (52 - ilog2 x)" and "x * 2 powi (52 - ilog2 x) < 2 ^ 53"
proof -
  let ?e = "ilog2 x"
  have s: "(0::rat) < 2 powi (52 - ?e)" by simp
  have a: "(2::rat) powi ?e * 2 powi (52 - ?e) = 2 ^ 52"
    using pow2i_mult[of ?e "52 - ?e"] by simp
  have b: "(2::rat) powi (?e + 1) * 2 powi (52 - ?e) = 2 ^ 53"
    using pow2i_mult[of "?e + 1" "52 - ?e"] by simp
  from ilog2_bounds(1)[OF assms] have "2 powi ?e * 2 powi (52 - ?e) \<le> x * 2 powi (52 - ?e)"
    using s by (simp only: mult_le_cancel_right_pos)
  then show "2 ^ 52 \<le> x * 2 powi (52 - ?e)" by (simp only: a)
  from ilog2_bounds(2)[OF assms] have "x * 2 powi (52 - ?e) < 2 powi (?e + 1) * 2 powi (52 - ?e)"
    using s by (simp only: mult_less_cancel_right_pos)
  then show "x * 2 powi (52 - ?e) < 2 ^ 53" by (simp only: b)
qed

lemma round_pos_bounds:
  assumes "0 < x"
  shows "2 powi (ilog2 x) \<le> round_pos x" and "round_pos x \<le> 2 powi (ilog2 x + 1)"
proof -
  let ?e = "ilog2 x"
  let ?m = "round_half_even (x * 2 powi (52 - ?e))"
  have s: "(0::rat) < 2 powi (?e - 52)" by simp
  have a: "(2::rat) ^ 52 * 2 powi (?e - 52) = 2 powi ?e"
    using pow2i_mult[of 52 "?e - 52"] by simp
  have b: "(2::rat) ^ 53 * 2 powi (?e - 52) = 2 powi (?e + 1)"
    using pow2i_mult[of 53 "?e - 52"] by (simp add: add.commute)
  have "2 ^ 52 \<le> ?m" by (rule round_half_even_ge_pow2[OF scaled_bounds(1)[OF assms]])
  then have "(2::rat) ^ 52 \<le> of_int ?m" by (rule pow2_le_of_int)
  then have "(2::rat) ^ 52 * 2 powi (?e - 52) \<le> of_int ?m * 2 powi (?e - 52)"
    using s by (simp only: mult_le_cancel_right_pos)
  then show "2 powi ?e \<le> round_pos x" by (simp only: a round_pos_def)
  have "x * 2 powi (52 - ?e) \<le> 2 ^ 53" using scaled_bounds(2)[OF assms] by simp
  then have "?m \<le> 2 ^ 53" by (rule round_half_even_le_pow2)
  then have "(of_int ?m :: rat) \<le> of_int (2 ^ 53)" by (simp only: of_int_le_iff)
  then have "(of_int ?m :: rat) \<le> 2 ^ 53" by simp
  then have "of_int ?m * 2 powi (?e - 52) \<le> (2::rat) ^ 53 * 2 powi (?e - 52)"
    using s by (simp only: mult_le_cancel_right_pos)
  then show "round_pos x \<le> 2 powi (?e + 1)" by (simp only: b round_pos_def)
qed

lemma round_pos_pos: "0 < x \<Longrightarrow> 0 < round_pos x"
proof -
  assume x: "0 < x"
  have "(0::rat) < 2 powi (ilog2 x)" by simp
  also have "\<dots> \<le> round_pos x" by (rule round_pos_bounds(1)[OF x])
  finally show ?thesis .
qed

text \<open>
  Rounding keeps the order: within a binade because rounding to an integer does, across
  binades because the power of two between them is a bound for both sides.
\<close>

lemma round_pos_mono:
  assumes "0 < x" "x \<le> y"
  shows "round_pos x \<le> round_pos y"
proof (cases "ilog2 x = ilog2 y")
  case True
  have "x * 2 powi (52 - ilog2 y) \<le> y * 2 powi (52 - ilog2 y)"
    using assms(2) by (simp only: mult_le_cancel_right_pos zero_less_power_int zero_less_numeral)
  then have "round_half_even (x * 2 powi (52 - ilog2 y))
      \<le> round_half_even (y * 2 powi (52 - ilog2 y))"
    by (rule round_half_even_mono)
  then have "(of_int (round_half_even (x * 2 powi (52 - ilog2 y))) :: rat)
      \<le> of_int (round_half_even (y * 2 powi (52 - ilog2 y)))"
    by (simp only: of_int_le_iff)
  then show ?thesis
    by (simp only: round_pos_def True mult_le_cancel_right_pos zero_less_power_int
        zero_less_numeral)
next
  case False
  with ilog2_mono[OF assms] have "ilog2 x + 1 \<le> ilog2 y" by simp
  then have "(2::rat) powi (ilog2 x + 1) \<le> 2 powi (ilog2 y)"
    by (rule power_int_increasing) simp
  moreover have "round_pos x \<le> 2 powi (ilog2 x + 1)"
    by (rule round_pos_bounds(2)[OF assms(1)])
  moreover have "2 powi (ilog2 y) \<le> round_pos y"
    using assms by (intro round_pos_bounds(1)) simp
  ultimately show ?thesis by linarith
qed

lemma round64_mono:
  assumes "x \<le> y"
  shows "round64 x \<le> round64 y"
proof -
  consider "0 < x" | "x \<le> 0" "0 \<le> y" | "y < 0" by linarith
  then show ?thesis
  proof cases
    case 1
    then show ?thesis using assms round_pos_mono[of x y] by (simp add: round64_def)
  next
    case 2
    have "round64 x \<le> 0"
      using 2(1) round_pos_pos[of "- x"] by (simp add: round64_def less_imp_le)
    moreover have "0 \<le> round64 y"
      using 2(2) round_pos_pos[of y] by (simp add: round64_def less_imp_le)
    ultimately show ?thesis by simp
  next
    case 3
    then show ?thesis using assms round_pos_mono[of "- y" "- x"] by (simp add: round64_def)
  qed
qed

text \<open>
  A rounding is checked, not searched: given the exponent and the significand, three
  comparisons of rationals establish the value.
\<close>

lemma round64_cert:
  assumes "2 powi e \<le> x" "x < 2 powi (e + 1)"
    and "\<bar>x * 2 powi (52 - e) - of_int m\<bar> < 1 / 2"
    and "y = of_int m * 2 powi (e - 52)"
  shows "round64 x = y"
proof -
  have "(0::rat) < 2 powi e" by simp
  with assms(1) have x: "0 < x" by linarith
  have e: "ilog2 x = e" by (rule ilog2_eqI[OF assms(1,2)])
  show ?thesis
    using x round_half_even_near[OF assms(3)] assms(4) by (simp add: round64_def round_pos_def e)
qed

lemma round64_tie:
  assumes "2 powi e \<le> x" "x < 2 powi (e + 1)"
    and "\<bar>x * 2 powi (52 - e) - of_int m\<bar> = 1 / 2" "even m"
    and "y = of_int m * 2 powi (e - 52)"
  shows "round64 x = y"
proof -
  have "(0::rat) < 2 powi e" by simp
  with assms(1) have x: "0 < x" by linarith
  have e: "ilog2 x = e" by (rule ilog2_eqI[OF assms(1,2)])
  show ?thesis
    using x round_half_even_tie[OF assms(3,4)] assms(5)
    by (simp add: round64_def round_pos_def e)
qed

section \<open>The fade delay\<close>

lemma round64_200_60: "round64 (200 / 60) = 7505999378950827 / 2251799813685248"
  by (rule round64_cert[where e = 1 and m = 7505999378950827]) simp_all

lemma fade_delay_by_words: "getAIMessageFadeDelayMs text = fade_delay_at (words text)"
  by (simp add: getAIMessageFadeDelayMs_def getReadingTimeSeconds_def fade_delay_at_def Let_def)

lemma fade_delay_atI:
  assumes "rat_of_nat n = k"
    and "round64 (k / (7505999378950827 / 2251799813685248)) = r"
    and "round64 (4 + r) = t"
    and "round64 (max 5 (min 15 t) * 1000) = d"
  shows "fade_delay_at n = d"
  using assms
  by (simp only: fade_delay_at_def num_div_def num_add_def num_mul_def round64_200_60)

lemma round64_5000: "round64 5000 = 5000"
  by (rule round64_cert[where e = 12 and m = 5497558138880000]) simp_all

lemma round64_15000: "round64 15000 = 15000"
  by (rule round64_cert[where e = 13 and m = 8246337208320000]) simp_all

text \<open>The delay never leaves the interval from 5000 to 15000 milliseconds.\<close>

lemma fade_delay_at_range: "5000 \<le> fade_delay_at n" "fade_delay_at n \<le> 15000"
proof -
  let ?c = "max 5 (min 15 (num_add 4 (num_div (rat_of_nat n) (num_div 200 60))))"
  have "5000 \<le> ?c * 1000" by simp
  from round64_mono[OF this] show "5000 \<le> fade_delay_at n"
    by (simp only: round64_5000 fade_delay_at_def num_mul_def)
  have "?c * 1000 \<le> 15000" by simp
  from round64_mono[OF this] show "fade_delay_at n \<le> 15000"
    by (simp only: round64_15000 fade_delay_at_def num_mul_def)
qed

text \<open>More words never give a shorter delay: every operation on the way keeps the order.\<close>

lemma fade_delay_at_mono:
  assumes "n \<le> m"
  shows "fade_delay_at n \<le> fade_delay_at m"
proof -
  let ?C = "7505999378950827 / 2251799813685248 :: rat"
  have "rat_of_nat n / ?C \<le> rat_of_nat m / ?C"
    using assms by (simp add: divide_right_mono)
  then have "round64 (rat_of_nat n / ?C) \<le> round64 (rat_of_nat m / ?C)"
    by (rule round64_mono)
  then have "4 + round64 (rat_of_nat n / ?C) \<le> 4 + round64 (rat_of_nat m / ?C)"
    by simp
  then have "round64 (4 + round64 (rat_of_nat n / ?C)) \<le> round64 (4 + round64 (rat_of_nat m / ?C))"
    by (rule round64_mono)
  then have "max 5 (min 15 (round64 (4 + round64 (rat_of_nat n / ?C)))) * 1000
      \<le> max 5 (min 15 (round64 (4 + round64 (rat_of_nat m / ?C)))) * 1000"
    by simp
  then have "round64 (max 5 (min 15 (round64 (4 + round64 (rat_of_nat n / ?C)))) * 1000)
      \<le> round64 (max 5 (min 15 (round64 (4 + round64 (rat_of_nat m / ?C)))) * 1000)"
    by (rule round64_mono)
  then show ?thesis
    by (simp only: fade_delay_at_def num_div_def num_add_def num_mul_def round64_200_60)
qed

lemma fade_delay_at_3: "fade_delay_at 3 = 5000"
proof (rule fade_delay_atI)
  show "rat_of_nat 3 = 3" by simp
  show "round64 (3 / (7505999378950827 / 2251799813685248)) = 2026619832316723 / 2251799813685248"
    by (rule round64_cert[where e = "-1" and m = 8106479329266892]) simp_all
  show "round64 (4 + 2026619832316723 / 2251799813685248) = 2758454771764429 / 562949953421312"
    by (rule round64_tie[where e = "2" and m = 5516909543528858]) simp_all
  show "round64 (max 5 (min 15 (2758454771764429 / 562949953421312)) * 1000) = 5000"
    by (rule round64_cert[where e = "12" and m = 5497558138880000]) simp_all
qed

lemma fade_delay_at_4: "fade_delay_at 4 = 5200"
proof (rule fade_delay_atI)
  show "rat_of_nat 4 = 4" by simp
  show "round64 (4 / (7505999378950827 / 2251799813685248)) = 5404319552844595 / 4503599627370496"
    by (rule round64_cert[where e = "0" and m = 5404319552844595]) simp_all
  show "round64 (4 + 5404319552844595 / 4503599627370496) = 5854679515581645 / 1125899906842624"
    by (rule round64_cert[where e = "2" and m = 5854679515581645]) simp_all
  show "round64 (max 5 (min 15 (5854679515581645 / 1125899906842624)) * 1000) = 5200"
    by (rule round64_cert[where e = "12" and m = 5717460464435200]) simp_all
qed

lemma fade_delay_at_5: "fade_delay_at 5 = 5500"
proof (rule fade_delay_atI)
  show "rat_of_nat 5 = 5" by simp
  show "round64 (5 / (7505999378950827 / 2251799813685248)) = 3 / 2"
    by (rule round64_cert[where e = "0" and m = 6755399441055744]) simp_all
  show "round64 (4 + 3 / 2) = 11 / 2"
    by (rule round64_cert[where e = "2" and m = 6192449487634432]) simp_all
  show "round64 (max 5 (min 15 (11 / 2)) * 1000) = 5500"
    by (rule round64_cert[where e = "12" and m = 6047313952768000]) simp_all
qed

lemma fade_delay_at_6: "fade_delay_at 6 = 5800"
proof (rule fade_delay_atI)
  show "rat_of_nat 6 = 6" by simp
  show "round64 (6 / (7505999378950827 / 2251799813685248)) = 2026619832316723 / 1125899906842624"
    by (rule round64_cert[where e = "0" and m = 8106479329266892]) simp_all
  show "round64 (4 + 2026619832316723 / 1125899906842624) = 6530219459687219 / 1125899906842624"
    by (rule round64_cert[where e = "2" and m = 6530219459687219]) simp_all
  show "round64 (max 5 (min 15 (6530219459687219 / 1125899906842624)) * 1000) = 5800"
    by (rule round64_cert[where e = "12" and m = 6377167441100800]) simp_all
qed

lemma fade_delay_at_7: "fade_delay_at 7 = 6100"
proof (rule fade_delay_atI)
  show "rat_of_nat 7 = 7" by simp
  show "round64 (7 / (7505999378950827 / 2251799813685248)) = 4728779608739021 / 2251799813685248"
    by (rule round64_cert[where e = "1" and m = 4728779608739021]) simp_all
  show "round64 (4 + 4728779608739021 / 2251799813685248) = 3433994715870003 / 562949953421312"
    by (rule round64_tie[where e = "2" and m = 6867989431740006]) simp_all
  show "round64 (max 5 (min 15 (3433994715870003 / 562949953421312)) * 1000) = 6100"
    by (rule round64_cert[where e = "12" and m = 6707020929433600]) simp_all
qed

lemma fade_delay_at_8: "fade_delay_at 8 = 6400"
proof (rule fade_delay_atI)
  show "rat_of_nat 8 = 8" by simp
  show "round64 (8 / (7505999378950827 / 2251799813685248)) = 5404319552844595 / 2251799813685248"
    by (rule round64_cert[where e = "1" and m = 5404319552844595]) simp_all
  show "round64 (4 + 5404319552844595 / 2251799813685248) = 3602879701896397 / 562949953421312"
    by (rule round64_tie[where e = "2" and m = 7205759403792794]) simp_all
  show "round64 (max 5 (min 15 (3602879701896397 / 562949953421312)) * 1000) = 6400"
    by (rule round64_cert[where e = "12" and m = 7036874417766400]) simp_all
qed

lemma fade_delay_at_9: "fade_delay_at 9 = 7366727906099199 / 1099511627776"
proof (rule fade_delay_atI)
  show "rat_of_nat 9 = 9" by simp
  show "round64 (9 / (7505999378950827 / 2251799813685248)) = 6079859496950169 / 2251799813685248"
    by (rule round64_cert[where e = "1" and m = 6079859496950169]) simp_all
  show "round64 (4 + 6079859496950169 / 2251799813685248) = 1885882343961395 / 281474976710656"
    by (rule round64_tie[where e = "2" and m = 7543529375845580]) simp_all
  show "round64 (max 5 (min 15 (1885882343961395 / 281474976710656)) * 1000) = 7366727906099199 / 1099511627776"
    by (rule round64_cert[where e = "12" and m = 7366727906099199]) simp_all
qed

lemma fade_delay_at_10: "fade_delay_at 10 = 7000"
proof (rule fade_delay_atI)
  show "rat_of_nat 10 = 10" by simp
  show "round64 (10 / (7505999378950827 / 2251799813685248)) = 3"
    by (rule round64_cert[where e = "1" and m = 6755399441055744]) simp_all
  show "round64 (4 + 3) = 7"
    by (rule round64_cert[where e = "2" and m = 7881299347898368]) simp_all
  show "round64 (max 5 (min 15 (7)) * 1000) = 7000"
    by (rule round64_cert[where e = "12" and m = 7696581394432000]) simp_all
qed

lemma fade_delay_at_11: "fade_delay_at 11 = 7300"
proof (rule fade_delay_atI)
  show "rat_of_nat 11 = 11" by simp
  show "round64 (11 / (7505999378950827 / 2251799813685248)) = 3715469692580659 / 1125899906842624"
    by (rule round64_cert[where e = "1" and m = 7430939385161318]) simp_all
  show "round64 (4 + 3715469692580659 / 1125899906842624) = 8219069319951155 / 1125899906842624"
    by (rule round64_cert[where e = "2" and m = 8219069319951155]) simp_all
  show "round64 (max 5 (min 15 (8219069319951155 / 1125899906842624)) * 1000) = 7300"
    by (rule round64_cert[where e = "12" and m = 8026434882764800]) simp_all
qed

lemma fade_delay_at_12: "fade_delay_at 12 = 7600"
proof (rule fade_delay_atI)
  show "rat_of_nat 12 = 12" by simp
  show "round64 (12 / (7505999378950827 / 2251799813685248)) = 2026619832316723 / 562949953421312"
    by (rule round64_cert[where e = "1" and m = 8106479329266892]) simp_all
  show "round64 (4 + 2026619832316723 / 562949953421312) = 4278419646001971 / 562949953421312"
    by (rule round64_cert[where e = "2" and m = 8556839292003942]) simp_all
  show "round64 (max 5 (min 15 (4278419646001971 / 562949953421312)) * 1000) = 7600"
    by (rule round64_cert[where e = "12" and m = 8356288371097600]) simp_all
qed

lemma fade_delay_at_13: "fade_delay_at 13 = 7900"
proof (rule fade_delay_atI)
  show "rat_of_nat 13 = 13" by simp
  show "round64 (13 / (7505999378950827 / 2251799813685248)) = 8782019273372467 / 2251799813685248"
    by (rule round64_cert[where e = "1" and m = 8782019273372467]) simp_all
  show "round64 (4 + 8782019273372467 / 2251799813685248) = 4447304632028365 / 562949953421312"
    by (rule round64_tie[where e = "2" and m = 8894609264056730]) simp_all
  show "round64 (max 5 (min 15 (4447304632028365 / 562949953421312)) * 1000) = 7900"
    by (rule round64_cert[where e = "12" and m = 8686141859430400]) simp_all
qed

lemma fade_delay_at_14: "fade_delay_at 14 = 8200"
proof (rule fade_delay_atI)
  show "rat_of_nat 14 = 14" by simp
  show "round64 (14 / (7505999378950827 / 2251799813685248)) = 4728779608739021 / 1125899906842624"
    by (rule round64_cert[where e = "2" and m = 4728779608739021]) simp_all
  show "round64 (4 + 4728779608739021 / 1125899906842624) = 2308094809027379 / 281474976710656"
    by (rule round64_tie[where e = "3" and m = 4616189618054758]) simp_all
  show "round64 (max 5 (min 15 (2308094809027379 / 281474976710656)) * 1000) = 8200"
    by (rule round64_cert[where e = "13" and m = 4507997673881600]) simp_all
qed

lemma fade_delay_at_15: "fade_delay_at 15 = 8500"
proof (rule fade_delay_atI)
  show "rat_of_nat 15 = 15" by simp
  show "round64 (15 / (7505999378950827 / 2251799813685248)) = 9 / 2"
    by (rule round64_cert[where e = "2" and m = 5066549580791808]) simp_all
  show "round64 (4 + 9 / 2) = 17 / 2"
    by (rule round64_cert[where e = "3" and m = 4785074604081152]) simp_all
  show "round64 (max 5 (min 15 (17 / 2)) * 1000) = 8500"
    by (rule round64_cert[where e = "13" and m = 4672924418048000]) simp_all
qed

lemma fade_delay_at_16: "fade_delay_at 16 = 8800"
proof (rule fade_delay_atI)
  show "rat_of_nat 16 = 16" by simp
  show "round64 (16 / (7505999378950827 / 2251799813685248)) = 5404319552844595 / 1125899906842624"
    by (rule round64_cert[where e = "2" and m = 5404319552844595]) simp_all
  show "round64 (4 + 5404319552844595 / 1125899906842624) = 2476979795053773 / 281474976710656"
    by (rule round64_tie[where e = "3" and m = 4953959590107546]) simp_all
  show "round64 (max 5 (min 15 (2476979795053773 / 281474976710656)) * 1000) = 8800"
    by (rule round64_cert[where e = "13" and m = 4837851162214400]) simp_all
qed

lemma fade_delay_at_17: "fade_delay_at 17 = 9100"
proof (rule fade_delay_atI)
  show "rat_of_nat 17 = 17" by simp
  show "round64 (17 / (7505999378950827 / 2251799813685248)) = 2871044762448691 / 562949953421312"
    by (rule round64_cert[where e = "2" and m = 5742089524897382]) simp_all
  show "round64 (4 + 2871044762448691 / 562949953421312) = 5122844576133939 / 562949953421312"
    by (rule round64_cert[where e = "3" and m = 5122844576133939]) simp_all
  show "round64 (max 5 (min 15 (5122844576133939 / 562949953421312)) * 1000) = 9100"
    by (rule round64_cert[where e = "13" and m = 5002777906380800]) simp_all
qed

lemma fade_delay_at_18: "fade_delay_at 18 = 5167704650547199 / 549755813888"
proof (rule fade_delay_atI)
  show "rat_of_nat 18 = 18" by simp
  show "round64 (18 / (7505999378950827 / 2251799813685248)) = 6079859496950169 / 1125899906842624"
    by (rule round64_cert[where e = "2" and m = 6079859496950169]) simp_all
  show "round64 (4 + 6079859496950169 / 1125899906842624) = 1322932390540083 / 140737488355328"
    by (rule round64_tie[where e = "3" and m = 5291729562160332]) simp_all
  show "round64 (max 5 (min 15 (1322932390540083 / 140737488355328)) * 1000) = 5167704650547199 / 549755813888"
    by (rule round64_cert[where e = "13" and m = 5167704650547199]) simp_all
qed

lemma fade_delay_at_19: "fade_delay_at 19 = 9700"
proof (rule fade_delay_atI)
  show "rat_of_nat 19 = 19" by simp
  show "round64 (19 / (7505999378950827 / 2251799813685248)) = 6417629469002957 / 1125899906842624"
    by (rule round64_cert[where e = "2" and m = 6417629469002957]) simp_all
  show "round64 (4 + 6417629469002957 / 1125899906842624) = 2730307274093363 / 281474976710656"
    by (rule round64_tie[where e = "3" and m = 5460614548186726]) simp_all
  show "round64 (max 5 (min 15 (2730307274093363 / 281474976710656)) * 1000) = 9700"
    by (rule round64_cert[where e = "13" and m = 5332631394713600]) simp_all
qed

lemma fade_delay_at_20: "fade_delay_at 20 = 10000"
proof (rule fade_delay_atI)
  show "rat_of_nat 20 = 20" by simp
  show "round64 (20 / (7505999378950827 / 2251799813685248)) = 6"
    by (rule round64_cert[where e = "2" and m = 6755399441055744]) simp_all
  show "round64 (4 + 6) = 10"
    by (rule round64_cert[where e = "3" and m = 5629499534213120]) simp_all
  show "round64 (max 5 (min 15 (10)) * 1000) = 10000"
    by (rule round64_cert[where e = "13" and m = 5497558138880000]) simp_all
qed

lemma fade_delay_at_21: "fade_delay_at 21 = 10300"
proof (rule fade_delay_atI)
  show "rat_of_nat 21 = 21" by simp
  show "round64 (21 / (7505999378950827 / 2251799813685248)) = 7093169413108531 / 1125899906842624"
    by (rule round64_cert[where e = "2" and m = 7093169413108531]) simp_all
  show "round64 (4 + 7093169413108531 / 1125899906842624) = 2899192260119757 / 281474976710656"
    by (rule round64_tie[where e = "3" and m = 5798384520239514]) simp_all
  show "round64 (max 5 (min 15 (2899192260119757 / 281474976710656)) * 1000) = 10300"
    by (rule round64_cert[where e = "13" and m = 5662484883046400]) simp_all
qed

lemma fade_delay_at_22: "fade_delay_at 22 = 10600"
proof (rule fade_delay_atI)
  show "rat_of_nat 22 = 22" by simp
  show "round64 (22 / (7505999378950827 / 2251799813685248)) = 3715469692580659 / 562949953421312"
    by (rule round64_cert[where e = "2" and m = 7430939385161318]) simp_all
  show "round64 (4 + 3715469692580659 / 562949953421312) = 5967269506265907 / 562949953421312"
    by (rule round64_cert[where e = "3" and m = 5967269506265907]) simp_all
  show "round64 (max 5 (min 15 (5967269506265907 / 562949953421312)) * 1000) = 10600"
    by (rule round64_cert[where e = "13" and m = 5827411627212800]) simp_all
qed

lemma fade_delay_at_23: "fade_delay_at 23 = 5992338371379199 / 549755813888"
proof (rule fade_delay_atI)
  show "rat_of_nat 23 = 23" by simp
  show "round64 (23 / (7505999378950827 / 2251799813685248)) = 7768709357214105 / 1125899906842624"
    by (rule round64_cert[where e = "2" and m = 7768709357214105]) simp_all
  show "round64 (4 + 7768709357214105 / 1125899906842624) = 1534038623073075 / 140737488355328"
    by (rule round64_tie[where e = "3" and m = 6136154492292300]) simp_all
  show "round64 (max 5 (min 15 (1534038623073075 / 140737488355328)) * 1000) = 5992338371379199 / 549755813888"
    by (rule round64_cert[where e = "13" and m = 5992338371379199]) simp_all
qed

lemma fade_delay_at_24: "fade_delay_at 24 = 11200"
proof (rule fade_delay_atI)
  show "rat_of_nat 24 = 24" by simp
  show "round64 (24 / (7505999378950827 / 2251799813685248)) = 2026619832316723 / 281474976710656"
    by (rule round64_cert[where e = "2" and m = 8106479329266892]) simp_all
  show "round64 (4 + 2026619832316723 / 281474976710656) = 3152519739159347 / 281474976710656"
    by (rule round64_cert[where e = "3" and m = 6305039478318694]) simp_all
  show "round64 (max 5 (min 15 (3152519739159347 / 281474976710656)) * 1000) = 11200"
    by (rule round64_cert[where e = "13" and m = 6157265115545600]) simp_all
qed

lemma fade_delay_at_25: "fade_delay_at 25 = 11500"
proof (rule fade_delay_atI)
  show "rat_of_nat 25 = 25" by simp
  show "round64 (25 / (7505999378950827 / 2251799813685248)) = 15 / 2"
    by (rule round64_cert[where e = "2" and m = 8444249301319680]) simp_all
  show "round64 (4 + 15 / 2) = 23 / 2"
    by (rule round64_cert[where e = "3" and m = 6473924464345088]) simp_all
  show "round64 (max 5 (min 15 (23 / 2)) * 1000) = 11500"
    by (rule round64_cert[where e = "13" and m = 6322191859712000]) simp_all
qed

lemma fade_delay_at_26: "fade_delay_at 26 = 11800"
proof (rule fade_delay_atI)
  show "rat_of_nat 26 = 26" by simp
  show "round64 (26 / (7505999378950827 / 2251799813685248)) = 8782019273372467 / 1125899906842624"
    by (rule round64_cert[where e = "2" and m = 8782019273372467]) simp_all
  show "round64 (4 + 8782019273372467 / 1125899906842624) = 3321404725185741 / 281474976710656"
    by (rule round64_tie[where e = "3" and m = 6642809450371482]) simp_all
  show "round64 (max 5 (min 15 (3321404725185741 / 281474976710656)) * 1000) = 11800"
    by (rule round64_cert[where e = "13" and m = 6487118603878400]) simp_all
qed

lemma fade_delay_at_27: "fade_delay_at 27 = 12100"
proof (rule fade_delay_atI)
  show "rat_of_nat 27 = 27" by simp
  show "round64 (27 / (7505999378950827 / 2251799813685248)) = 4559894622712627 / 562949953421312"
    by (rule round64_cert[where e = "3" and m = 4559894622712627]) simp_all
  show "round64 (4 + 4559894622712627 / 562949953421312) = 6811694436397875 / 562949953421312"
    by (rule round64_cert[where e = "3" and m = 6811694436397875]) simp_all
  show "round64 (max 5 (min 15 (6811694436397875 / 562949953421312)) * 1000) = 12100"
    by (rule round64_cert[where e = "13" and m = 6652045348044800]) simp_all
qed

lemma fade_delay_at_28: "fade_delay_at 28 = 12400"
proof (rule fade_delay_atI)
  show "rat_of_nat 28 = 28" by simp
  show "round64 (28 / (7505999378950827 / 2251799813685248)) = 4728779608739021 / 562949953421312"
    by (rule round64_cert[where e = "3" and m = 4728779608739021]) simp_all
  show "round64 (4 + 4728779608739021 / 562949953421312) = 6980579422424269 / 562949953421312"
    by (rule round64_cert[where e = "3" and m = 6980579422424269]) simp_all
  show "round64 (max 5 (min 15 (6980579422424269 / 562949953421312)) * 1000) = 12400"
    by (rule round64_cert[where e = "13" and m = 6816972092211200]) simp_all
qed

lemma fade_delay_at_29: "fade_delay_at 29 = 12700"
proof (rule fade_delay_atI)
  show "rat_of_nat 29 = 29" by simp
  show "round64 (29 / (7505999378950827 / 2251799813685248)) = 2448832297382707 / 281474976710656"
    by (rule round64_cert[where e = "3" and m = 4897664594765414]) simp_all
  show "round64 (4 + 2448832297382707 / 281474976710656) = 3574732204225331 / 281474976710656"
    by (rule round64_cert[where e = "3" and m = 7149464408450662]) simp_all
  show "round64 (max 5 (min 15 (3574732204225331 / 281474976710656)) * 1000) = 12700"
    by (rule round64_cert[where e = "13" and m = 6981898836377600]) simp_all
qed

lemma fade_delay_at_30: "fade_delay_at 30 = 13000"
proof (rule fade_delay_atI)
  show "rat_of_nat 30 = 30" by simp
  show "round64 (30 / (7505999378950827 / 2251799813685248)) = 9"
    by (rule round64_cert[where e = "3" and m = 5066549580791808]) simp_all
  show "round64 (4 + 9) = 13"
    by (rule round64_cert[where e = "3" and m = 7318349394477056]) simp_all
  show "round64 (max 5 (min 15 (13)) * 1000) = 13000"
    by (rule round64_cert[where e = "13" and m = 7146825580544000]) simp_all
qed

lemma fade_delay_at_31: "fade_delay_at 31 = 7311752324710399 / 549755813888"
proof (rule fade_delay_atI)
  show "rat_of_nat 31 = 31" by simp
  show "round64 (31 / (7505999378950827 / 2251799813685248)) = 5235434566818201 / 562949953421312"
    by (rule round64_cert[where e = "3" and m = 5235434566818201]) simp_all
  show "round64 (4 + 5235434566818201 / 562949953421312) = 7487234380503449 / 562949953421312"
    by (rule round64_cert[where e = "3" and m = 7487234380503449]) simp_all
  show "round64 (max 5 (min 15 (7487234380503449 / 562949953421312)) * 1000) = 7311752324710399 / 549755813888"
    by (rule round64_cert[where e = "13" and m = 7311752324710399]) simp_all
qed

lemma fade_delay_at_32: "fade_delay_at 32 = 13600"
proof (rule fade_delay_atI)
  show "rat_of_nat 32 = 32" by simp
  show "round64 (32 / (7505999378950827 / 2251799813685248)) = 5404319552844595 / 562949953421312"
    by (rule round64_cert[where e = "3" and m = 5404319552844595]) simp_all
  show "round64 (4 + 5404319552844595 / 562949953421312) = 7656119366529843 / 562949953421312"
    by (rule round64_cert[where e = "3" and m = 7656119366529843]) simp_all
  show "round64 (max 5 (min 15 (7656119366529843 / 562949953421312)) * 1000) = 13600"
    by (rule round64_cert[where e = "13" and m = 7476679068876800]) simp_all
qed

lemma fade_delay_at_33: "fade_delay_at 33 = 13900"
proof (rule fade_delay_atI)
  show "rat_of_nat 33 = 33" by simp
  show "round64 (33 / (7505999378950827 / 2251799813685248)) = 5573204538870989 / 562949953421312"
    by (rule round64_cert[where e = "3" and m = 5573204538870989]) simp_all
  show "round64 (4 + 5573204538870989 / 562949953421312) = 7825004352556237 / 562949953421312"
    by (rule round64_cert[where e = "3" and m = 7825004352556237]) simp_all
  show "round64 (max 5 (min 15 (7825004352556237 / 562949953421312)) * 1000) = 13900"
    by (rule round64_cert[where e = "13" and m = 7641605813043200]) simp_all
qed

lemma fade_delay_at_34: "fade_delay_at 34 = 14200"
proof (rule fade_delay_atI)
  show "rat_of_nat 34 = 34" by simp
  show "round64 (34 / (7505999378950827 / 2251799813685248)) = 2871044762448691 / 281474976710656"
    by (rule round64_cert[where e = "3" and m = 5742089524897382]) simp_all
  show "round64 (4 + 2871044762448691 / 281474976710656) = 3996944669291315 / 281474976710656"
    by (rule round64_cert[where e = "3" and m = 7993889338582630]) simp_all
  show "round64 (max 5 (min 15 (3996944669291315 / 281474976710656)) * 1000) = 14200"
    by (rule round64_cert[where e = "13" and m = 7806532557209600]) simp_all
qed

lemma fade_delay_at_35: "fade_delay_at 35 = 14500"
proof (rule fade_delay_atI)
  show "rat_of_nat 35 = 35" by simp
  show "round64 (35 / (7505999378950827 / 2251799813685248)) = 21 / 2"
    by (rule round64_cert[where e = "3" and m = 5910974510923776]) simp_all
  show "round64 (4 + 21 / 2) = 29 / 2"
    by (rule round64_cert[where e = "3" and m = 8162774324609024]) simp_all
  show "round64 (max 5 (min 15 (29 / 2)) * 1000) = 14500"
    by (rule round64_cert[where e = "13" and m = 7971459301376000]) simp_all
qed

lemma fade_delay_at_36: "fade_delay_at 36 = 8136386045542399 / 549755813888"
proof (rule fade_delay_atI)
  show "rat_of_nat 36 = 36" by simp
  show "round64 (36 / (7505999378950827 / 2251799813685248)) = 6079859496950169 / 562949953421312"
    by (rule round64_cert[where e = "3" and m = 6079859496950169]) simp_all
  show "round64 (4 + 6079859496950169 / 562949953421312) = 8331659310635417 / 562949953421312"
    by (rule round64_cert[where e = "3" and m = 8331659310635417]) simp_all
  show "round64 (max 5 (min 15 (8331659310635417 / 562949953421312)) * 1000) = 8136386045542399 / 549755813888"
    by (rule round64_cert[where e = "13" and m = 8136386045542399]) simp_all
qed

lemma fade_delay_at_37: "fade_delay_at 37 = 15000"
proof (rule fade_delay_atI)
  show "rat_of_nat 37 = 37" by simp
  show "round64 (37 / (7505999378950827 / 2251799813685248)) = 6248744482976563 / 562949953421312"
    by (rule round64_cert[where e = "3" and m = 6248744482976563]) simp_all
  show "round64 (4 + 6248744482976563 / 562949953421312) = 8500544296661811 / 562949953421312"
    by (rule round64_cert[where e = "3" and m = 8500544296661811]) simp_all
  show "round64 (max 5 (min 15 (8500544296661811 / 562949953421312)) * 1000) = 15000"
    by (rule round64_cert[where e = "13" and m = 8246337208320000]) simp_all
qed

lemmas fade_delay_table =
  fade_delay_at_4 fade_delay_at_5 fade_delay_at_6 fade_delay_at_7 fade_delay_at_8
  fade_delay_at_9 fade_delay_at_10 fade_delay_at_11 fade_delay_at_12 fade_delay_at_13
  fade_delay_at_14 fade_delay_at_15 fade_delay_at_16 fade_delay_at_17 fade_delay_at_18
  fade_delay_at_19 fade_delay_at_20 fade_delay_at_21 fade_delay_at_22 fade_delay_at_23
  fade_delay_at_24 fade_delay_at_25 fade_delay_at_26 fade_delay_at_27 fade_delay_at_28
  fade_delay_at_29 fade_delay_at_30 fade_delay_at_31 fade_delay_at_32 fade_delay_at_33
  fade_delay_at_34 fade_delay_at_35 fade_delay_at_36

text \<open>
  The exact value of the formula is \<open>5000\<close> up to three words, \<open>15000\<close> from 37 words on and
  \<open>4000 + 300 * n\<close> in between; the delay computed in binary64 is that value or the
  binary64 number just below it.
\<close>

lemma fade_delay_at_low:
  assumes "n \<le> 3"
  shows "fade_delay_at n = 5000"
proof -
  have "fade_delay_at n \<le> fade_delay_at 3" using assms by (rule fade_delay_at_mono)
  then have "fade_delay_at n \<le> 5000" by (simp only: fade_delay_at_3)
  with fade_delay_at_range(1)[of n] show ?thesis by simp
qed

lemma fade_delay_at_high:
  assumes "37 \<le> n"
  shows "fade_delay_at n = 15000"
proof -
  have "fade_delay_at 37 \<le> fade_delay_at n" using assms by (rule fade_delay_at_mono)
  then have "15000 \<le> fade_delay_at n" by (simp only: fade_delay_at_37)
  with fade_delay_at_range(2)[of n] show ?thesis by simp
qed

lemma fade_delay_at_mid:
  "\<forall>n \<in> set [4..<37]. \<bar>fade_delay_at n - (4000 + 300 * rat_of_nat n)\<bar> \<le> 1 / 2 ^ 39"
  by (simp add: fade_delay_table)

lemma exact_formula_low:
  assumes "n \<le> 3"
  shows "1000 * max 5 (min 15 (4 + rat_of_nat n / (200 / 60))) = 5000"
proof -
  have "rat_of_nat n \<le> 3" using assms by (metis of_nat_le_iff of_nat_numeral)
  then have "4 + rat_of_nat n / (200 / 60) \<le> 5" by simp
  then show ?thesis by simp
qed

lemma exact_formula_high:
  assumes "37 \<le> n"
  shows "1000 * max 5 (min 15 (4 + rat_of_nat n / (200 / 60))) = 15000"
proof -
  have "37 \<le> rat_of_nat n" using assms by (metis of_nat_le_iff of_nat_numeral)
  then have "15 \<le> 4 + rat_of_nat n / (200 / 60)" by simp
  then show ?thesis by simp
qed

lemma exact_formula_mid:
  assumes "4 \<le> n" "n \<le> 36"
  shows "1000 * max 5 (min 15 (4 + rat_of_nat n / (200 / 60))) = 4000 + 300 * rat_of_nat n"
proof -
  have "4 \<le> rat_of_nat n" using assms(1) by (metis of_nat_le_iff of_nat_numeral)
  moreover have "rat_of_nat n \<le> 36" using assms(2) by (metis of_nat_le_iff of_nat_numeral)
  ultimately have "5 \<le> 4 + rat_of_nat n / (200 / 60)" "4 + rat_of_nat n / (200 / 60) \<le> 15"
    by simp_all
  then show ?thesis by simp
qed

lemma fade_delay_at_error:
  "\<bar>fade_delay_at n - 1000 * max 5 (min 15 (4 + rat_of_nat n / (200 / 60)))\<bar> \<le> 1 / 2 ^ 39"
proof -
  consider "n \<le> 3" | "4 \<le> n" "n \<le> 36" | "37 \<le> n" by linarith
  then show ?thesis
  proof cases
    case 1
    then show ?thesis by (simp only: fade_delay_at_low exact_formula_low) simp
  next
    case 2
    then have "n \<in> {4..<37}" by simp
    then have "n \<in> set [4..<37]" by (simp only: set_upt)
    with fade_delay_at_mid have "\<bar>fade_delay_at n - (4000 + 300 * rat_of_nat n)\<bar> \<le> 1 / 2 ^ 39"
      by blast
    then show ?thesis by (simp only: exact_formula_mid[OF 2])
  next
    case 3
    then show ?thesis by (simp only: fade_delay_at_high exact_formula_high) simp
  qed
qed

text \<open>
  The five word counts at which a rounding shows: there the delay falls below the exact
  value; at every other count the two are equal.
\<close>

lemma fade_delay_at_mid_exact:
  "\<forall>n \<in> set [4..<37]. n \<notin> {9, 18, 23, 31, 36}
      \<longrightarrow> fade_delay_at n = 4000 + 300 * rat_of_nat n"
  by (simp add: fade_delay_table)

lemma fade_delay_at_mid_below:
  "\<forall>n \<in> set [9, 18, 23, 31, 36]. fade_delay_at n < 4000 + 300 * rat_of_nat n"
  by (simp add: fade_delay_table)

lemma fade_delay_at_exact:
  assumes "n \<notin> {9, 18, 23, 31, 36}"
  shows "fade_delay_at n = 1000 * max 5 (min 15 (4 + rat_of_nat n / (200 / 60)))"
proof -
  consider "n \<le> 3" | "4 \<le> n" "n \<le> 36" | "37 \<le> n" by linarith
  then show ?thesis
  proof cases
    case 1
    then show ?thesis by (simp only: fade_delay_at_low exact_formula_low)
  next
    case 2
    then have "n \<in> {4..<37}" by simp
    then have "n \<in> set [4..<37]" by (simp only: set_upt)
    with fade_delay_at_mid_exact assms have "fade_delay_at n = 4000 + 300 * rat_of_nat n"
      by blast
    then show ?thesis by (simp only: exact_formula_mid[OF 2])
  next
    case 3
    then show ?thesis by (simp only: fade_delay_at_high exact_formula_high)
  qed
qed

lemma fade_delay_at_below:
  assumes "n \<in> {9, 18, 23, 31, 36}"
  shows "fade_delay_at n < 1000 * max 5 (min 15 (4 + rat_of_nat n / (200 / 60)))"
proof -
  from assms have n: "4 \<le> n" "n \<le> 36" by auto
  from assms have "n \<in> set [9, 18, 23, 31, 36]" by simp
  with fade_delay_at_mid_below have "fade_delay_at n < 4000 + 300 * rat_of_nat n" by blast
  then show ?thesis by (simp only: exact_formula_mid[OF n])
qed

section \<open>Counting words\<close>

lemma word_starts_all_ws: "\<forall>c \<in> set s. isWhiteSpace c \<Longrightarrow> word_starts b s = 0"
  by (induction s arbitrary: b) simp_all

lemma word_starts_ws_suffix:
  "\<forall>c \<in> set ys. isWhiteSpace c \<Longrightarrow> word_starts b (xs @ ys) = word_starts b xs"
  by (induction xs arbitrary: b) (simp_all add: word_starts_all_ws)

lemma word_starts_skip_ws: "word_starts True (dropWhile isWhiteSpace s) = word_starts True s"
  by (induction s) simp_all

lemma word_starts_after_ws:
  "s \<noteq> [] \<Longrightarrow> isWhiteSpace (hd s) \<Longrightarrow> word_starts b s = word_starts True (dropWhile isWhiteSpace s)"
  by (cases s) (simp_all add: word_starts_skip_ws)

lemma word_starts_word_prefix:
  "\<forall>c \<in> set w. \<not> isWhiteSpace c \<Longrightarrow>
     word_starts b (w @ r) = (if w \<noteq> [] \<and> b then 1 else 0) + word_starts (w = [] \<and> b) r"
  by (induction w arbitrary: b) simp_all

lemma word_starts_trim: "word_starts True (trim s) = word_starts True s"
proof -
  let ?t = "dropWhile isWhiteSpace s"
  have "rev (takeWhile isWhiteSpace (rev ?t) @ dropWhile isWhiteSpace (rev ?t))
      = rev (dropWhile isWhiteSpace (rev ?t)) @ rev (takeWhile isWhiteSpace (rev ?t))"
    by (rule rev_append)
  then have t: "?t = trim s @ rev (takeWhile isWhiteSpace (rev ?t))"
    by (simp only: takeWhile_dropWhile_id rev_rev_ident trim_def)
  have "\<forall>c \<in> set (rev (takeWhile isWhiteSpace (rev ?t))). isWhiteSpace c"
    by (auto dest: set_takeWhileD)
  then have "word_starts True (trim s @ rev (takeWhile isWhiteSpace (rev ?t)))
      = word_starts True (trim s)"
    by (rule word_starts_ws_suffix)
  moreover have "word_starts True ?t
      = word_starts True (trim s @ rev (takeWhile isWhiteSpace (rev ?t)))"
    using t by (rule arg_cong)
  ultimately have "word_starts True ?t = word_starts True (trim s)" by (rule trans[rotated])
  then show ?thesis by (simp only: word_starts_skip_ws)
qed

text \<open>The non-empty pieces of a split are the words of the text.\<close>

lemma split_ws_counts: "length (filter (\<lambda>w. w \<noteq> []) (split_ws s)) = word_starts True s"
proof (induction s rule: split_ws.induct)
  case (1 s)
  let ?w = "takeWhile (\<lambda>c. \<not> isWhiteSpace c) s"
  let ?r = "dropWhile (\<lambda>c. \<not> isWhiteSpace c) s"
  have w: "\<forall>c \<in> set ?w. \<not> isWhiteSpace c" by (auto dest: set_takeWhileD)
  have s: "word_starts True s = word_starts True (?w @ ?r)" by simp
  show ?case
  proof (cases "?r = []")
    case True
    then have all: "\<forall>c \<in> set s. \<not> isWhiteSpace c"
      by (simp add: dropWhile_eq_Nil_conv)
    have "word_starts True (s @ []) = (if s \<noteq> [] \<and> True then 1 else 0) + word_starts (s = [] \<and> True) []"
      using all by (rule word_starts_word_prefix)
    then have "word_starts True s = (if s \<noteq> [] then 1 else 0)" by simp
    moreover have "split_ws s = [s]" by (simp only: split_ws.simps[of s] True) simp
    ultimately show ?thesis by simp
  next
    case False
    then have hd: "isWhiteSpace (hd ?r)" using hd_dropWhile[of "\<lambda>c. \<not> isWhiteSpace c" s] by simp
    have split: "split_ws s = ?w # split_ws (dropWhile isWhiteSpace ?r)"
      by (simp only: split_ws.simps[of s] False if_False)
    note s
    also have "word_starts True (?w @ ?r)
        = (if ?w \<noteq> [] \<and> True then 1 else 0) + word_starts (?w = [] \<and> True) ?r"
      using w by (rule word_starts_word_prefix)
    also have "word_starts (?w = [] \<and> True) ?r = word_starts True (dropWhile isWhiteSpace ?r)"
      using False hd by (rule word_starts_after_ws)
    finally have "word_starts True s
        = (if ?w \<noteq> [] \<and> True then 1 else 0) + word_starts True (dropWhile isWhiteSpace ?r)" .
    moreover have "length (filter (\<lambda>w. w \<noteq> []) (split_ws (dropWhile isWhiteSpace ?r)))
        = word_starts True (dropWhile isWhiteSpace ?r)"
      using False by (rule "1.IH")
    ultimately show ?thesis by (simp add: split)
  qed
qed

lemma words_spec: "words text = spec_word_count text"
  by (simp add: words_def spec_word_count_def split_ws_counts)

lemma word_starts_repeat: "word_starts True (concat (replicate n ''a '')) = n"
  by (induction n) (simp_all add: isWhiteSpace_def)

lemma words_repeat: "words (concat (replicate n ''a '')) = n"
  by (simp add: words_spec spec_word_count_def word_starts_trim word_starts_repeat)

section \<open>Trimming\<close>

lemma trim_Nil_iff: "trim s = [] \<longleftrightarrow> (\<forall>c \<in> set s. isWhiteSpace c)"
proof
  assume "trim s = []"
  then have all: "\<forall>x \<in> set (dropWhile isWhiteSpace s). isWhiteSpace x"
    by (simp add: trim_def dropWhile_eq_Nil_conv)
  have "dropWhile isWhiteSpace s = []"
  proof (rule ccontr)
    assume ne: "dropWhile isWhiteSpace s \<noteq> []"
    then have "\<not> isWhiteSpace (hd (dropWhile isWhiteSpace s))" by (rule hd_dropWhile)
    moreover have "hd (dropWhile isWhiteSpace s) \<in> set (dropWhile isWhiteSpace s)"
      using ne by (rule hd_in_set)
    ultimately show False using all by blast
  qed
  then show "\<forall>c \<in> set s. isWhiteSpace c" by (simp add: dropWhile_eq_Nil_conv)
next
  assume "\<forall>c \<in> set s. isWhiteSpace c"
  then have "dropWhile isWhiteSpace s = []" by (simp add: dropWhile_eq_Nil_conv)
  then have "trim s = rev (dropWhile isWhiteSpace (rev []))" by (simp only: trim_def)
  then show "trim s = []" by simp
qed

section \<open>Submissions\<close>

lemma sendMessage_begin_None:
  "sendMessage_begin s = None \<longleftrightarrow> trim (inputValue s) = [] \<or> isLoading s"
  by (simp add: sendMessage_begin_def Let_def)

lemma sendMessage_begin_Some:
  assumes "trim (inputValue s) \<noteq> []" "\<not> isLoading s"
  shows "sendMessage_begin s =
    Some (s\<lparr>inputValue := [],
             fadingUserText := Some (trim (inputValue s)),
             messages := messages s @ [\<lparr>role = ''user'', content = trim (inputValue s)\<rparr>],
             isLoading := True,
             currentResponse := []\<rparr>,
          messages s @ [\<lparr>role = ''user'', content = trim (inputValue s)\<rparr>])"
  using assms by (simp add: sendMessage_begin_def Let_def)

lemma sendMessage_settle_success:
  "trim c \<noteq> [] \<Longrightarrow> sendMessage_settle (Response True (Some (Reply e (Some c)))) = Inr (trim c)"
  by (simp add: sendMessage_settle_def Let_def)

lemma messages_reveal_tick [simp]: "messages (reveal_tick fullText i s) = messages s"
  by (simp add: reveal_tick_def)

lemma messages_foldl_reveal_tick:
  "messages (foldl (\<lambda>s i. reveal_tick fullText i s) s is) = messages s"
  by (induction "is" arbitrary: s) simp_all

lemma messages_reveal_loop [simp]: "messages (reveal_loop fullText s) = messages s"
  by (simp add: reveal_loop_def messages_foldl_reveal_tick)

lemma messages_reveal_done [simp]:
  "messages (reveal_done fullText s) = messages s @ [\<lparr>role = ''assistant'', content = fullText\<rparr>]"
  by (simp add: reveal_done_def)

lemma messages_sendMessage_catch [simp]:
  "messages (sendMessage_catch err s) =
     messages s @ [\<lparr>role = ''assistant'',
                    content = (case err of
                                 ErrorObject m \<Rightarrow> m
                               | _ \<Rightarrow> ''Something went wrong. Perhaps the diary is reluctant to reply just now. Try again.'')\<rparr>]"
  by (simp add: sendMessage_catch_def)

lemma messages_resume_success:
  assumes "trim c \<noteq> []"
  shows "messages (sendMessage_resume (Response True (Some (Reply e (Some c)))) s) =
    messages s @ [\<lparr>role = ''assistant'', content = trim c\<rparr>]"
  by (simp add: sendMessage_resume_def sendMessage_settle_success[OF assms])



section \<open>The history only grows\<close>

lemma messages_schedule_one [simp]: "messages (schedule_one index msg s) = messages s"
  by (simp add: schedule_one_def Let_def)

lemma messages_schedule_from [simp]: "messages (schedule_from index ms s) = messages s"
  by (induction ms arbitrary: index s) simp_all

lemma messages_schedule_fades [simp]: "messages (schedule_fades s) = messages s"
  by (simp add: schedule_fades_def)

lemma messages_handleScroll [simp]: "messages (handleScroll now drawn s) = messages s"
  by (simp add: handleScroll_def showScrollFlash_def split: option.splits)

lemma messages_handleClick [simp]:
  "messages (handleClick excluded rect clientX clientY s) = messages s"
  by (simp add: handleClick_def Let_def split: option.splits prod.splits)

lemma messages_onKeyDown [simp]: "messages (onKeyDown key modified focused s) = messages s"
  by (simp add: onKeyDown_def)

lemma messages_fade_timer_fired [simp]: "messages (fade_timer_fired index s) = messages s"
  by (simp add: fade_timer_fired_def)

lemma prefix_sendMessage_begin:
  "sendMessage_begin s = Some (s1, history) \<Longrightarrow> prefix (messages s) (messages s1)"
  by (auto simp add: sendMessage_begin_def Let_def split: if_splits)

lemma prefix_step: "prefix (messages s) (messages (step ev s))"
proof (cases ev)
  case (InputKey key shift)
  then show ?thesis
    by (auto split: option.splits dest: prefix_sendMessage_begin)
next
  case (FetchSettled r)
  then show ?thesis by (simp split: sum.splits)
qed simp_all

lemma prefix_run: "prefix (messages s) (messages (run evs s))"
proof (induction evs arbitrary: s)
  case Nil
  show ?case by (simp add: run_def)
next
  case (Cons ev evs)
  have "prefix (messages s) (messages (step ev s))" by (rule prefix_step)
  also have "prefix (messages (step ev s)) (messages (run evs (step ev s)))" by (rule Cons.IH)
  finally show ?case by (simp add: run_def)
qed

lemma prefix_sendMessage: "prefix (messages s) (messages (fst (sendMessage net s)))"
proof (cases "sendMessage_begin s")
  case None
  then show ?thesis by (simp add: sendMessage_def)
next
  case (Some p)
  obtain s1 history where p: "p = (s1, history)" by (cases p)
  have "prefix (messages s) (messages s1)"
    using Some p by (auto dest: prefix_sendMessage_begin)
  also have "prefix (messages s1) (messages (sendMessage_resume (net history) s1))"
    by (simp add: sendMessage_resume_def split: sum.splits)
  finally show ?thesis using Some p by (simp add: sendMessage_def)
qed

lemma prefix_nth: "prefix xs ys \<Longrightarrow> i < length xs \<Longrightarrow> ys ! i = xs ! i"
  by (auto simp add: prefix_def nth_append)

section \<open>Fade scheduling\<close>

lemma count_list_distinct: "distinct xs \<Longrightarrow> x \<in> set xs \<Longrightarrow> count_list xs x = 1"
  by (induction xs) auto

text \<open>
  The log of timers and the set of scheduled indices agree, and no index is logged twice.
\<close>

lemma schedule_one_consistent:
  assumes "distinct (map fst (fadeTimerLog s))" "fst ` set (fadeTimerLog s) = scheduledFadeRef s"
  shows "distinct (map fst (fadeTimerLog (schedule_one index msg s)))"
    and "fst ` set (fadeTimerLog (schedule_one index msg s)) = scheduledFadeRef (schedule_one index msg s)"
  using assms by (auto simp add: schedule_one_def Let_def)

lemma schedule_from_consistent:
  assumes "distinct (map fst (fadeTimerLog s))" "fst ` set (fadeTimerLog s) = scheduledFadeRef s"
  shows "distinct (map fst (fadeTimerLog (schedule_from index ms s)))
    \<and> fst ` set (fadeTimerLog (schedule_from index ms s)) = scheduledFadeRef (schedule_from index ms s)"
  using assms
proof (induction ms arbitrary: index s)
  case Nil
  then show ?case by simp
next
  case (Cons msg ms)
  show ?case
    using Cons.IH[OF schedule_one_consistent[OF Cons.prems]] by simp
qed

lemma scheduled_schedule_one: "scheduledFadeRef s \<subseteq> scheduledFadeRef (schedule_one index msg s)"
  by (auto simp add: schedule_one_def Let_def)

lemma scheduled_schedule_from: "scheduledFadeRef s \<subseteq> scheduledFadeRef (schedule_from index ms s)"
proof (induction ms arbitrary: index s)
  case Nil
  show ?case by simp
next
  case (Cons msg ms)
  have "scheduledFadeRef s \<subseteq> scheduledFadeRef (schedule_one index msg s)"
    by (rule scheduled_schedule_one)
  also have "\<dots> \<subseteq> scheduledFadeRef (schedule_from (Suc index) ms (schedule_one index msg s))"
    by (rule Cons.IH)
  finally show ?case by simp
qed

text \<open>After the effect has run, every assistant message of the history is scheduled.\<close>

lemma schedule_from_covers:
  assumes "j < length ms" "role (ms ! j) = ''assistant''"
  shows "index + j \<in> scheduledFadeRef (schedule_from index ms s)"
  using assms
proof (induction ms arbitrary: index j s)
  case Nil
  then show ?case by simp
next
  case (Cons msg ms)
  show ?case
  proof (cases j)
    case 0
    with Cons.prems have "index \<in> scheduledFadeRef (schedule_one index msg s)"
      by (simp add: schedule_one_def Let_def)
    with scheduled_schedule_from[of "schedule_one index msg s" "Suc index" ms] show ?thesis
      using 0 by auto
  next
    case (Suc j')
    with Cons.prems have "j' < length ms" "role (ms ! j') = ''assistant''" by simp_all
    from Cons.IH[OF this, of "Suc index" "schedule_one index msg s"] show ?thesis
      using Suc by simp
  qed
qed

lemma other_fields_sendMessage_begin:
  assumes "sendMessage_begin s = Some (s1, history)"
  shows "fadeTimerLog s1 = fadeTimerLog s" "scheduledFadeRef s1 = scheduledFadeRef s"
  using assms by (auto simp add: sendMessage_begin_def Let_def split: if_splits)

lemma step_fade_fields:
  assumes "ev \<noteq> MessagesEffect"
  shows "fadeTimerLog (step ev s) = fadeTimerLog s \<and> scheduledFadeRef (step ev s) = scheduledFadeRef s"
proof (cases ev)
  case (Scroll now drawn)
  then show ?thesis by (simp add: handleScroll_def showScrollFlash_def split: option.splits)
next
  case (Click excluded rect clientX clientY)
  then show ?thesis by (simp add: handleClick_def Let_def split: option.splits prod.splits)
next
  case (DocumentKey key modified focused)
  then show ?thesis by (simp add: onKeyDown_def)
next
  case (InputKey key shift)
  then show ?thesis by (auto split: option.splits dest: other_fields_sendMessage_begin)
next
  case (FetchSettled r)
  then show ?thesis by (simp add: sendMessage_catch_def Let_def split: sum.splits)
next
  case (RevealTick fullText i)
  then show ?thesis by (simp add: reveal_tick_def)
next
  case (RevealDone fullText)
  then show ?thesis by (simp add: reveal_done_def)
next
  case MessagesEffect
  with assms show ?thesis by simp
next
  case (FadeTimerFired index)
  then show ?thesis by (simp add: fade_timer_fired_def)
qed simp_all

lemma step_consistent:
  assumes "distinct (map fst (fadeTimerLog s))" "fst ` set (fadeTimerLog s) = scheduledFadeRef s"
  shows "distinct (map fst (fadeTimerLog (step ev s)))
    \<and> fst ` set (fadeTimerLog (step ev s)) = scheduledFadeRef (step ev s)"
proof (cases "ev = MessagesEffect")
  case True
  then show ?thesis using schedule_from_consistent[OF assms] by (simp add: schedule_fades_def)
next
  case False
  then show ?thesis using step_fade_fields[OF False, of s] assms by simp
qed

lemma run_consistent:
  assumes "distinct (map fst (fadeTimerLog s))" "fst ` set (fadeTimerLog s) = scheduledFadeRef s"
  shows "distinct (map fst (fadeTimerLog (run evs s)))
    \<and> fst ` set (fadeTimerLog (run evs s)) = scheduledFadeRef (run evs s)"
  using assms
proof (induction evs arbitrary: s)
  case Nil
  then show ?case by (simp add: run_def)
next
  case (Cons ev evs)
  from step_consistent[OF Cons.prems, of ev]
  have "distinct (map fst (fadeTimerLog (step ev s)))"
    "fst ` set (fadeTimerLog (step ev s)) = scheduledFadeRef (step ev s)" by simp_all
  from Cons.IH[OF this] show ?case by (simp add: run_def)
qed

lemma scheduled_step: "scheduledFadeRef s \<subseteq> scheduledFadeRef (step ev s)"
proof (cases "ev = MessagesEffect")
  case True
  then show ?thesis using scheduled_schedule_from[of s 0 "messages s"] by (simp add: schedule_fades_def)
next
  case False
  then show ?thesis using step_fade_fields[OF False, of s] by simp
qed

lemma scheduled_run: "scheduledFadeRef s \<subseteq> scheduledFadeRef (run evs s)"
proof (induction evs arbitrary: s)
  case Nil
  show ?case by (simp add: run_def)
next
  case (Cons ev evs)
  have "scheduledFadeRef s \<subseteq> scheduledFadeRef (step ev s)" by (rule scheduled_step)
  also have "\<dots> \<subseteq> scheduledFadeRef (run evs (step ev s))" by (rule Cons.IH)
  finally show ?case by (simp add: run_def)
qed

lemma initial_consistent:
  "distinct (map fst (fadeTimerLog initial))" "fst ` set (fadeTimerLog initial) = scheduledFadeRef initial"
  by (simp_all add: initial_def)

lemma run_append: "run (evs @ evs') s = run evs' (run evs s)"
  by (simp add: run_def)

section \<open>The delay of a scheduled timer\<close>

text \<open>
  Every timer in the log, and every pending timer, belongs to an assistant message of the
  history and carries the fade delay of that message's content.
\<close>

lemma schedule_one_timers:
  assumes "index < length (messages s)" "messages s ! index = msg"
    and "\<forall>(i, d) \<in> set (fadeTimerLog s).
           i < length (messages s) \<and> role (messages s ! i) = ''assistant''
           \<and> d = getAIMessageFadeDelayMs (content (messages s ! i))"
    and "\<forall>i d. assistantFadeTimeoutsRef s i = Some d \<longrightarrow> (i, d) \<in> set (fadeTimerLog s)"
  shows "\<forall>(i, d) \<in> set (fadeTimerLog (schedule_one index msg s)).
           i < length (messages s) \<and> role (messages s ! i) = ''assistant''
           \<and> d = getAIMessageFadeDelayMs (content (messages s ! i))"
    and "\<forall>i d. assistantFadeTimeoutsRef (schedule_one index msg s) i = Some d
           \<longrightarrow> (i, d) \<in> set (fadeTimerLog (schedule_one index msg s))"
  using assms by (auto simp add: schedule_one_def Let_def)

lemma schedule_from_timers:
  assumes "messages s = pre @ ms" "length pre = index"
    and "\<forall>(i, d) \<in> set (fadeTimerLog s).
           i < length (messages s) \<and> role (messages s ! i) = ''assistant''
           \<and> d = getAIMessageFadeDelayMs (content (messages s ! i))"
    and "\<forall>i d. assistantFadeTimeoutsRef s i = Some d \<longrightarrow> (i, d) \<in> set (fadeTimerLog s)"
  shows "(\<forall>(i, d) \<in> set (fadeTimerLog (schedule_from index ms s)).
           i < length (messages s) \<and> role (messages s ! i) = ''assistant''
           \<and> d = getAIMessageFadeDelayMs (content (messages s ! i)))
    \<and> (\<forall>i d. assistantFadeTimeoutsRef (schedule_from index ms s) i = Some d
           \<longrightarrow> (i, d) \<in> set (fadeTimerLog (schedule_from index ms s)))"
  using assms
proof (induction ms arbitrary: index pre s)
  case Nil
  then show ?case by simp
next
  case (Cons msg ms)
  let ?s1 = "schedule_one index msg s"
  from Cons.prems(1,2) have at: "index < length (messages s)" "messages s ! index = msg"
    by (auto simp add: nth_append)
  have m1: "messages ?s1 = (pre @ [msg]) @ ms" using Cons.prems(1) by simp
  have l1: "length (pre @ [msg]) = Suc index" using Cons.prems(2) by simp
  from schedule_one_timers[OF at Cons.prems(3,4)]
  have q1: "\<forall>(i, d) \<in> set (fadeTimerLog ?s1).
           i < length (messages ?s1) \<and> role (messages ?s1 ! i) = ''assistant''
           \<and> d = getAIMessageFadeDelayMs (content (messages ?s1 ! i))"
    and r1: "\<forall>i d. assistantFadeTimeoutsRef ?s1 i = Some d \<longrightarrow> (i, d) \<in> set (fadeTimerLog ?s1)"
    by simp_all
  from Cons.IH[OF m1 l1 q1 r1] show ?case by simp
qed

lemma step_pending_timers:
  assumes "ev \<noteq> MessagesEffect" "assistantFadeTimeoutsRef (step ev s) i = Some d"
  shows "assistantFadeTimeoutsRef s i = Some d"
proof (cases ev)
  case (Scroll now drawn)
  with assms(2) show ?thesis
    by (simp add: handleScroll_def showScrollFlash_def split: option.splits if_splits)
next
  case (Click excluded rect clientX clientY)
  with assms(2) show ?thesis
    by (simp add: handleClick_def Let_def split: option.splits prod.splits if_splits)
next
  case (DocumentKey key modified focused)
  with assms(2) show ?thesis by (simp add: onKeyDown_def split: if_splits)
next
  case (InputKey key shift)
  with assms(2) show ?thesis
    by (auto simp add: sendMessage_begin_def Let_def split: option.splits if_splits)
next
  case (FetchSettled r)
  with assms(2) show ?thesis by (simp add: sendMessage_catch_def Let_def split: sum.splits)
next
  case (RevealTick fullText i)
  with assms(2) show ?thesis by (simp add: reveal_tick_def)
next
  case (RevealDone fullText)
  with assms(2) show ?thesis by (simp add: reveal_done_def)
next
  case MessagesEffect
  with assms(1) show ?thesis by simp
next
  case (FadeTimerFired index)
  with assms(2) show ?thesis by (simp add: fade_timer_fired_def split: if_splits)
qed (use assms(2) in simp_all)

lemma step_timers:
  assumes "\<forall>(i, d) \<in> set (fadeTimerLog s).
           i < length (messages s) \<and> role (messages s ! i) = ''assistant''
           \<and> d = getAIMessageFadeDelayMs (content (messages s ! i))"
    and "\<forall>i d. assistantFadeTimeoutsRef s i = Some d \<longrightarrow> (i, d) \<in> set (fadeTimerLog s)"
  shows "(\<forall>(i, d) \<in> set (fadeTimerLog (step ev s)).
           i < length (messages (step ev s)) \<and> role (messages (step ev s) ! i) = ''assistant''
           \<and> d = getAIMessageFadeDelayMs (content (messages (step ev s) ! i)))
    \<and> (\<forall>i d. assistantFadeTimeoutsRef (step ev s) i = Some d
           \<longrightarrow> (i, d) \<in> set (fadeTimerLog (step ev s)))"
proof (cases "ev = MessagesEffect")
  case True
  from schedule_from_timers[of s "[]" "messages s" 0, OF _ _ assms]
  show ?thesis using True by (simp add: schedule_fades_def)
next
  case False
  have log: "fadeTimerLog (step ev s) = fadeTimerLog s"
    using step_fade_fields[OF False, of s] by simp
  have p: "prefix (messages s) (messages (step ev s))" by (rule prefix_step)
  have "\<forall>(i, d) \<in> set (fadeTimerLog s).
           i < length (messages (step ev s)) \<and> role (messages (step ev s) ! i) = ''assistant''
           \<and> d = getAIMessageFadeDelayMs (content (messages (step ev s) ! i))"
  proof (clarify, intro conjI)
    fix i d
    assume mem: "(i, d) \<in> set (fadeTimerLog s)"
    with assms(1) have i: "i < length (messages s)"
      and r: "role (messages s ! i) = ''assistant''"
      and d: "d = getAIMessageFadeDelayMs (content (messages s ! i))"
      by auto
    from p have "length (messages s) \<le> length (messages (step ev s))" by (rule prefix_length_le)
    with i show "i < length (messages (step ev s))" by simp
    from prefix_nth[OF p i] r show "role (messages (step ev s) ! i) = ''assistant''" by simp
    from prefix_nth[OF p i] d
    show "d = getAIMessageFadeDelayMs (content (messages (step ev s) ! i))" by simp
  qed
  moreover have "\<forall>i d. assistantFadeTimeoutsRef (step ev s) i = Some d
      \<longrightarrow> (i, d) \<in> set (fadeTimerLog s)"
    using step_pending_timers[OF False] assms(2) by blast
  ultimately show ?thesis by (simp only: log)
qed

lemma run_timers:
  assumes "\<forall>(i, d) \<in> set (fadeTimerLog s).
           i < length (messages s) \<and> role (messages s ! i) = ''assistant''
           \<and> d = getAIMessageFadeDelayMs (content (messages s ! i))"
    and "\<forall>i d. assistantFadeTimeoutsRef s i = Some d \<longrightarrow> (i, d) \<in> set (fadeTimerLog s)"
  shows "(\<forall>(i, d) \<in> set (fadeTimerLog (run evs s)).
           i < length (messages (run evs s)) \<and> role (messages (run evs s) ! i) = ''assistant''
           \<and> d = getAIMessageFadeDelayMs (content (messages (run evs s) ! i)))
    \<and> (\<forall>i d. assistantFadeTimeoutsRef (run evs s) i = Some d
           \<longrightarrow> (i, d) \<in> set (fadeTimerLog (run evs s)))"
  using assms
proof (induction evs arbitrary: s)
  case Nil
  then show ?case by (simp add: run_def)
next
  case (Cons ev evs)
  from step_timers[OF Cons.prems, of ev]
  have "\<forall>(i, d) \<in> set (fadeTimerLog (step ev s)).
           i < length (messages (step ev s)) \<and> role (messages (step ev s) ! i) = ''assistant''
           \<and> d = getAIMessageFadeDelayMs (content (messages (step ev s) ! i))"
    and "\<forall>i d. assistantFadeTimeoutsRef (step ev s) i = Some d
           \<longrightarrow> (i, d) \<in> set (fadeTimerLog (step ev s))"
    by simp_all
  from Cons.IH[OF this] show ?case by (simp add: run_def)
qed

lemma reachable_timers:
  "(\<forall>(i, d) \<in> set (fadeTimerLog (run evs initial)).
       i < length (messages (run evs initial))
       \<and> role (messages (run evs initial) ! i) = ''assistant''
       \<and> d = getAIMessageFadeDelayMs (content (messages (run evs initial) ! i)))
   \<and> (\<forall>i d. assistantFadeTimeoutsRef (run evs initial) i = Some d
         \<longrightarrow> (i, d) \<in> set (fadeTimerLog (run evs initial)))"
  by (rule run_timers) (simp_all add: initial_def)

section \<open>The relay\<close>

text \<open>
  The final user turn is the last element with role \<^verbatim>\<open>"user"\<close>, and it is what
  \<^verbatim>\<open>filter(...).pop()\<close> finds.
\<close>

lemma final_user_turn_None: "final_user_turn msgs = None \<longleftrightarrow> (\<forall>m \<in> set msgs. role m \<noteq> ''user'')"
  by (induction msgs) (auto split: option.splits)

lemma final_user_turn_append:
  "final_user_turn (pre @ u # post) =
     (case final_user_turn post of Some v \<Rightarrow> Some v | None \<Rightarrow> final_user_turn (pre @ [u]))"
  by (induction pre) (auto split: option.splits)

lemma final_user_turn_decomp:
  assumes "role u = ''user''" "\<forall>m \<in> set post. role m \<noteq> ''user''"
  shows "final_user_turn (pre @ u # post) = Some u"
proof -
  have post: "final_user_turn post = None" using assms(2) by (simp add: final_user_turn_None)
  have "final_user_turn (pre @ [u]) = Some u"
    using assms(1) by (induction pre) simp_all
  then show ?thesis
    unfolding final_user_turn_append[of pre u post] post by simp
qed

lemma final_user_turn_last:
  "msgs \<noteq> [] \<Longrightarrow> role (last msgs) = ''user'' \<Longrightarrow> final_user_turn msgs = Some (last msgs)"
  using final_user_turn_decomp[of "last msgs" "[]" "butlast msgs"] by simp

lemma pop_filter_user:
  "(case rev (filter (\<lambda>m. role m = ''user'') msgs) of [] \<Rightarrow> None | m # _ \<Rightarrow> Some m)
     = final_user_turn msgs"
proof (induction msgs)
  case Nil
  show ?case by simp
next
  case (Cons m ms)
  show ?case
  proof (cases "rev (filter (\<lambda>m. role m = ''user'') ms)")
    case Nil
    with Cons.IH have "final_user_turn ms = None" by simp
    with Nil show ?thesis by simp
  next
    case (Cons x xs)
    with Cons.IH have "final_user_turn ms = Some x" by simp
    with Cons show ?thesis by simp
  qed
qed

text \<open>Elements that are turns as declared, and the messages they denote.\<close>

lemma read_turn_Some:
  assumes "read_turn m = Some t"
  shows "m \<noteq> JNull"
    and "get_property m ''role'' = Some (JString (role t))"
    and "get_property m ''content'' = Some (JString (content t))"
proof -
  from assms obtain r c where
    rc: "get_property m ''role'' = Some (JString r)" "get_property m ''content'' = Some (JString c)"
    and t: "t = \<lparr>role = r, content = c\<rparr>"
    by (auto simp add: read_turn_def split: option.splits json.splits)
  from rc(1) show "m \<noteq> JNull" by auto
  from rc t show "get_property m ''role'' = Some (JString (role t))"
    and "get_property m ''content'' = Some (JString (content t))" by simp_all
qed

lemma turns_no_null:
  assumes "map read_turn elems = map Some msgs"
  shows "JNull \<notin> set elems"
proof
  assume "JNull \<in> set elems"
  then have "read_turn JNull \<in> set (map read_turn elems)" by simp
  then have "read_turn JNull \<in> set (map Some msgs)" by (simp only: assms)
  then show False by (auto simp add: read_turn_def)
qed

lemma turns_filter_user:
  "map read_turn elems = map Some msgs \<Longrightarrow>
     map read_turn (filter (\<lambda>m. get_property m ''role'' = Some (JString ''user'')) elems)
       = map Some (filter (\<lambda>t. role t = ''user'') msgs)"
proof (induction elems arbitrary: msgs)
  case Nil
  then show ?case by simp
next
  case (Cons e elems)
  then obtain t ts where msgs: "msgs = t # ts" and e: "read_turn e = Some t"
    and rest: "map read_turn elems = map Some ts"
    by (cases msgs) auto
  from read_turn_Some(2)[OF e]
  have "get_property e ''role'' = Some (JString ''user'') \<longleftrightarrow> role t = ''user''" by simp
  then show ?case using Cons.IH[OF rest] e by (simp add: msgs)
qed

lemma turns_length: "map read_turn elems = map Some msgs \<Longrightarrow> length elems = length msgs"
  using map_eq_imp_length_eq by blast

lemma turns_drop_butlast:
  assumes "map read_turn elems = map Some msgs"
  shows "map read_turn (drop n (butlast elems)) = map Some (drop n (butlast msgs))"
proof -
  have "map read_turn (drop n (butlast elems)) = drop n (butlast (map read_turn elems))"
    by (simp only: map_butlast[symmetric] drop_map)
  also have "\<dots> = drop n (butlast (map Some msgs))" by (simp only: assms)
  also have "\<dots> = map Some (drop n (butlast msgs))"
    by (simp only: map_butlast[symmetric] drop_map)
  finally show ?thesis .
qed

lemma turns_history:
  "map read_turn elems = map Some msgs \<Longrightarrow>
     map (\<lambda>m. (if get_property m ''role'' = Some (JString ''user'') then ''user'' else ''model'',
               get_property m ''content'')) elems
       = map (\<lambda>t. (if role t = ''user'' then ''user'' else ''model'', Some (JString (content t))))
           msgs"
proof (induction elems arbitrary: msgs)
  case Nil
  then show ?case by simp
next
  case (Cons e elems)
  then obtain t ts where msgs: "msgs = t # ts" and e: "read_turn e = Some t"
    and rest: "map read_turn elems = map Some ts"
    by (cases msgs) auto
  show ?case
    using Cons.IH[OF rest] read_turn_Some(2,3)[OF e] by (simp add: msgs)
qed

text \<open>What \<^verbatim>\<open>filter(...).pop()\<close> finds in a list of turns is its final user turn.\<close>

lemma turns_pop:
  assumes "map read_turn elems = map Some msgs"
  shows "(case rev (filter (\<lambda>m. get_property m ''role'' = Some (JString ''user'')) elems) of
            [] \<Rightarrow> final_user_turn msgs = None
          | x # _ \<Rightarrow> \<exists>u. final_user_turn msgs = Some u \<and> read_turn x = Some u)"
proof -
  let ?fe = "filter (\<lambda>m. get_property m ''role'' = Some (JString ''user'')) elems"
  let ?fm = "filter (\<lambda>t. role t = ''user'') msgs"
  have "rev (map read_turn ?fe) = rev (map Some ?fm)"
    using turns_filter_user[OF assms] by (rule arg_cong)
  then have m: "map read_turn (rev ?fe) = map Some (rev ?fm)"
    by (simp only: rev_map)
  show ?thesis
  proof (cases "rev ?fe")
    case Nil
    with m have "rev ?fm = []" by simp
    with pop_filter_user[of msgs] have "final_user_turn msgs = None" by simp
    with Nil show ?thesis by simp
  next
    case (Cons x xs)
    with m obtain u us where fm: "rev ?fm = u # us" and x: "read_turn x = Some u"
      by (cases "rev ?fm") auto
    from fm pop_filter_user[of msgs] have "final_user_turn msgs = Some u" by simp
    with Cons x show ?thesis by simp
  qed
qed

lemma POST_unconfigured:
  "apiKey = None \<or> apiKey = Some [] \<Longrightarrow>
     POST apiKey engine body model =
       (\<lparr>status = 500, payload = ErrorBody ''GEMINI_API_KEY is not configured.''\<rparr>, [])"
  by (auto simp add: POST_def)



lemma POST_null_element:
  "apiKey = Some k \<Longrightarrow> k \<noteq> [] \<Longrightarrow> request_messages parsed = Some elems \<Longrightarrow>
     JNull \<in> set elems \<Longrightarrow>
     POST apiKey engine (Json parsed) model =
       (\<lparr>status = 500, payload = ErrorBody (engine (ReadPropertyOfNull ''role''))\<rparr>, [])"
  by (auto simp add: POST_def toErrorMessage_def)

lemma POST_no_user_role:
  assumes "apiKey = Some k" "k \<noteq> []" "request_messages parsed = Some elems" "elems \<noteq> []"
    and "JNull \<notin> set elems"
    and "\<forall>m \<in> set elems. get_property m ''role'' \<noteq> Some (JString ''user'')"
  shows "POST apiKey engine (Json parsed) model =
    (\<lparr>status = 400, payload = ErrorBody ''No user message content.''\<rparr>, [])"
proof -
  from assms(6) have "filter (\<lambda>m. get_property m ''role'' = Some (JString ''user'')) elems = []"
    by (simp add: filter_empty_conv)
  then show ?thesis using assms(1-5) by (simp add: POST_def)
qed


lemma POST_turns_forward:
  assumes "apiKey = Some k" "k \<noteq> []" "request_messages parsed = Some elems"
    and "map read_turn elems = map Some msgs"
    and "final_user_turn msgs = Some u" "trim (content u) \<noteq> []"
  shows "POST apiKey engine (Json parsed) model =
    (let history =
           map (\<lambda>t. (if role t = ''user'' then ''user'' else ''model'', Some (JString (content t))))
             (drop (length (butlast msgs) - 20) (butlast msgs))
     in (case model history of
           StartChatThrows err \<Rightarrow>
             (\<lparr>status = 500, payload = ErrorBody (toErrorMessage err)\<rparr>, [StartChat history])
         | Chat chat_sendMessage \<Rightarrow>
             (case chat_sendMessage (trim (content u)) of
                ModelThrows err \<Rightarrow>
                  (\<lparr>status = 500, payload = ErrorBody (toErrorMessage err)\<rparr>,
                   [StartChat history, ChatSendMessage (trim (content u))])
              | ModelText generated \<Rightarrow>
                  (if trim generated = [] then
                     (\<lparr>status = 502,
                       payload = ErrorBody ''The diary had nothing to say. It may have been blocked or returned no text. Try rephrasing.''\<rparr>,
                      [StartChat history, ChatSendMessage (trim (content u))])
                   else
                     (\<lparr>status = 200, payload = ContentBody (trim generated)\<rparr>,
                      [StartChat history, ChatSendMessage (trim (content u))]))
              | ModelNoString \<Rightarrow>
                  (\<lparr>status = 502,
                    payload = ErrorBody ''The diary had nothing to say. It may have been blocked or returned no text. Try rephrasing.''\<rparr>,
                   [StartChat history, ChatSendMessage (trim (content u))]))))"
proof -
  from assms(5) have "msgs \<noteq> []" by auto
  with assms(4) have ne: "elems \<noteq> []" by auto
  note nonull = turns_no_null[OF assms(4)]
  from turns_pop[OF assms(4)] assms(5) obtain x xs where
    f: "rev (filter (\<lambda>m. get_property m ''role'' = Some (JString ''user'')) elems) = x # xs"
    and x: "read_turn x = Some u"
    by (cases "rev (filter (\<lambda>m. get_property m ''role'' = Some (JString ''user'')) elems)") auto
  have len: "length (butlast elems) = length (butlast msgs)"
    using turns_length[OF assms(4)] by simp
  have h: "map (\<lambda>m. (if get_property m ''role'' = Some (JString ''user'') then ''user'' else ''model'',
                     get_property m ''content''))
             (drop (length (butlast elems) - 20) (butlast elems))
      = map (\<lambda>t. (if role t = ''user'' then ''user'' else ''model'', Some (JString (content t))))
          (drop (length (butlast msgs) - 20) (butlast msgs))"
    unfolding len by (rule turns_history[OF turns_drop_butlast[OF assms(4)]])
  show ?thesis
    using assms(1,2,3,6) ne nonull f read_turn_Some(3)[OF x]
    by (simp add: POST_def Let_def h del: length_butlast
        split: chat_start.splits model_result.splits)
qed


lemma last_twenty:
  "suffix (drop (length xs - 20) xs) xs" "length (drop (length xs - 20) xs) = min 20 (length xs)"
  by (simp_all add: suffix_drop)

section \<open>The claims\<close>

subsection \<open>The interaction controller\<close>

text \<open>
  Claim C1. A submission whose trimmed text is not empty, made while no request is in
  flight, appends exactly one user message to the history, and does so before the request
  is made: the synchronous part of \<^verbatim>\<open>sendMessage\<close> returns the state with the user message
  at the end of the history together with the list it posts. When the relay answers with
  a success (an OK response whose content is a string that is not blank), exactly one
  assistant message follows, so that the history of the whole call is the old history, the
  user message and the assistant message, in that order, and one request was made. The
  last part says the same of the resumed call in any state it may find when the answer
  arrives.
\<close>

theorem submission_appends_user_then_assistant:
  assumes "trim (inputValue s) \<noteq> []" and "\<not> isLoading s"
  shows
    "(\<exists>s1. sendMessage_begin s =
              Some (s1, messages s @ [\<lparr>role = ''user'', content = trim (inputValue s)\<rparr>])
          \<and> messages s1 = messages s @ [\<lparr>role = ''user'', content = trim (inputValue s)\<rparr>])
     \<and> (\<forall>e c. net (messages s @ [\<lparr>role = ''user'', content = trim (inputValue s)\<rparr>])
                 = Response True (Some (Reply e (Some c)))
              \<longrightarrow> trim c \<noteq> []
              \<longrightarrow> messages (fst (sendMessage net s))
                    = messages s @ [\<lparr>role = ''user'', content = trim (inputValue s)\<rparr>,
                                    \<lparr>role = ''assistant'', content = trim c\<rparr>]
                  \<and> snd (sendMessage net s)
                    = [messages s @ [\<lparr>role = ''user'', content = trim (inputValue s)\<rparr>]])
     \<and> (\<forall>s2 e c. trim c \<noteq> []
              \<longrightarrow> messages (sendMessage_resume (Response True (Some (Reply e (Some c)))) s2)
                    = messages s2 @ [\<lparr>role = ''assistant'', content = trim c\<rparr>])"
proof (intro conjI allI impI)
  show "\<exists>s1. sendMessage_begin s =
              Some (s1, messages s @ [\<lparr>role = ''user'', content = trim (inputValue s)\<rparr>])
          \<and> messages s1 = messages s @ [\<lparr>role = ''user'', content = trim (inputValue s)\<rparr>]"
    by (simp add: sendMessage_begin_Some[OF assms])
next
  fix e c
  assume net: "net (messages s @ [\<lparr>role = ''user'', content = trim (inputValue s)\<rparr>])
      = Response True (Some (Reply e (Some c)))"
    and c: "trim c \<noteq> []"
  show "messages (fst (sendMessage net s))
      = messages s @ [\<lparr>role = ''user'', content = trim (inputValue s)\<rparr>,
                      \<lparr>role = ''assistant'', content = trim c\<rparr>]"
    by (simp add: sendMessage_def sendMessage_begin_Some[OF assms] net messages_resume_success[OF c])
  show "snd (sendMessage net s)
      = [messages s @ [\<lparr>role = ''user'', content = trim (inputValue s)\<rparr>]]"
    by (simp add: sendMessage_def sendMessage_begin_Some[OF assms])
next
  fix s2 e c
  assume "trim c \<noteq> []"
  then show "messages (sendMessage_resume (Response True (Some (Reply e (Some c)))) s2)
      = messages s2 @ [\<lparr>role = ''assistant'', content = trim c\<rparr>]"
    by (rule messages_resume_success)
qed

theorem submission_appends_user_then_assistant_witness:
  "trim (inputValue (initial\<lparr>inputValue := ''  hi ''\<rparr>)) \<noteq> []
   \<and> \<not> isLoading (initial\<lparr>inputValue := ''  hi ''\<rparr>)
   \<and> messages (fst (sendMessage (\<lambda>h. Response True (Some (Reply None (Some '' Hello. ''))))
                     (initial\<lparr>inputValue := ''  hi ''\<rparr>)))
       = [\<lparr>role = ''user'', content = ''hi''\<rparr>, \<lparr>role = ''assistant'', content = ''Hello.''\<rparr>]
   \<and> snd (sendMessage (\<lambda>h. Response True (Some (Reply None (Some '' Hello. ''))))
            (initial\<lparr>inputValue := ''  hi ''\<rparr>))
       = [[\<lparr>role = ''user'', content = ''hi''\<rparr>]]"
  using submission_appends_user_then_assistant
    [of "initial\<lparr>inputValue := ''  hi ''\<rparr>"
        "\<lambda>h. Response True (Some (Reply None (Some '' Hello. '')))"]
  by (simp add: initial_def trim_def isWhiteSpace_def)

text \<open>
  Claim C6. A submission whose text is empty or consists of white space only is ignored:
  \<^verbatim>\<open>sendMessage\<close> returns at once, the whole state is unchanged (the history, the loading
  flag and the transient response with it) and no request is made. The same holds when
  the submission comes from the Enter key.
\<close>

theorem blank_submission_ignored:
  assumes "\<forall>c \<in> set (inputValue s). isWhiteSpace c"
  shows "sendMessage_begin s = None
       \<and> sendMessage net s = (s, [])
       \<and> step (InputKey ''Enter'' False) s = s"
proof -
  from assms have "trim (inputValue s) = []" by (simp add: trim_Nil_iff)
  then have "sendMessage_begin s = None" by (simp add: sendMessage_begin_None)
  then show ?thesis by (simp add: sendMessage_def)
qed

theorem blank_submission_ignored_witness:
  "list_all isWhiteSpace (inputValue (initial\<lparr>inputValue := ''   ''\<rparr>))
   \<and> sendMessage (\<lambda>h. Rejected OtherValue) (initial\<lparr>inputValue := ''   ''\<rparr>)
       = (initial\<lparr>inputValue := ''   ''\<rparr>, [])"
  using blank_submission_ignored
    [of "initial\<lparr>inputValue := ''   ''\<rparr>" "\<lambda>h. Rejected OtherValue"]
  by (simp add: isWhiteSpace_def)




text \<open>
  Claim C8. Every assistant message is scheduled for fade exactly once. In any state the
  page can reach, once the scheduling effect has run over a history that holds an
  assistant message at index \<open>i\<close>, the log of timers holds exactly one timer for \<open>i\<close>, and
  so it stays whatever happens next, further runs of the effect included; and in no
  reachable state is an index logged twice.
\<close>

theorem fade_scheduled_exactly_once:
  assumes "s = run before initial"
    and "i < length (messages s)" and "role (messages s ! i) = ''assistant''"
  shows "count_list (map fst (fadeTimerLog (run after (step MessagesEffect s)))) i = 1
       \<and> (\<forall>j. count_list (map fst (fadeTimerLog s)) j \<le> 1)"
proof
  let ?s' = "run (before @ MessagesEffect # after) initial"
  have s': "?s' = run after (step MessagesEffect s)"
    by (simp add: assms(1) run_def)
  have cons: "distinct (map fst (fadeTimerLog ?s'))"
    "fst ` set (fadeTimerLog ?s') = scheduledFadeRef ?s'"
    using run_consistent[OF initial_consistent] by simp_all
  have "0 + i \<in> scheduledFadeRef (schedule_from 0 (messages s) s)"
    using assms(2,3) by (rule schedule_from_covers)
  then have "i \<in> scheduledFadeRef (step MessagesEffect s)"
    by (simp add: schedule_fades_def)
  with scheduled_run[of "step MessagesEffect s" after] have "i \<in> scheduledFadeRef ?s'"
    unfolding s' by blast
  with cons(2) have "i \<in> set (map fst (fadeTimerLog ?s'))" by simp
  with cons(1) have "count_list (map fst (fadeTimerLog ?s')) i = 1"
    by (intro count_list_distinct)
  then show "count_list (map fst (fadeTimerLog (run after (step MessagesEffect s)))) i = 1"
    by (simp only: s')
next
  have d: "distinct (map fst (fadeTimerLog s))"
    unfolding assms(1) using run_consistent[OF initial_consistent] by simp
  show "\<forall>j. count_list (map fst (fadeTimerLog s)) j \<le> 1"
  proof
    fix j
    show "count_list (map fst (fadeTimerLog s)) j \<le> 1"
    proof (cases "j \<in> set (map fst (fadeTimerLog s))")
      case True
      with d have "count_list (map fst (fadeTimerLog s)) j = 1" by (intro count_list_distinct)
      then show ?thesis by simp
    next
      case False
      then show ?thesis by simp
    qed
  qed
qed

theorem fade_scheduled_exactly_once_witness:
  "(1::nat) < length (messages (run [InputChanged ''hi'', InputKey ''Enter'' False, RevealDone ''Hello.'']
                          initial))
   \<and> role (messages (run [InputChanged ''hi'', InputKey ''Enter'' False, RevealDone ''Hello.'']
                     initial) ! 1) = ''assistant''
   \<and> count_list
        (map fst (fadeTimerLog
          (run [MessagesEffect, FadeTimerFired 1, MessagesEffect]
            (step MessagesEffect
              (run [InputChanged ''hi'', InputKey ''Enter'' False, RevealDone ''Hello.''] initial)))))
        1 = 1"
proof -
  have m: "messages (run [InputChanged ''hi'', InputKey ''Enter'' False, RevealDone ''Hello.''] initial)
      = [\<lparr>role = ''user'', content = ''hi''\<rparr>, \<lparr>role = ''assistant'', content = ''Hello.''\<rparr>]"
    by (simp add: run_def initial_def sendMessage_begin_def trim_def isWhiteSpace_def Let_def)
  show ?thesis
    using fade_scheduled_exactly_once
      [of "run [InputChanged ''hi'', InputKey ''Enter'' False, RevealDone ''Hello.''] initial"
          "[InputChanged ''hi'', InputKey ''Enter'' False, RevealDone ''Hello.'']" 1
          "[MessagesEffect, FadeTimerFired 1, MessagesEffect]"]
    by (simp add: m)
qed

text \<open>
  Claim C10. The history is append-only. Every event of the page, every sequence of events
  and every whole call of \<^verbatim>\<open>sendMessage\<close> leave the old history as a prefix of the new one;
  so no entry is removed, and the entry at an index keeps its role and its content.
\<close>

theorem history_append_only:
  "prefix (messages s) (messages (step ev s))
   \<and> prefix (messages s) (messages (run evs s))
   \<and> prefix (messages s) (messages (fst (sendMessage net s)))
   \<and> (\<forall>i < length (messages s). messages (run evs s) ! i = messages s ! i)"
  using prefix_step[of s ev] prefix_run[of s evs] prefix_sendMessage[of s net]
  by (auto dest: prefix_nth)

theorem history_append_only_witness:
  "(0::nat) < length (messages (initial\<lparr>messages := [\<lparr>role = ''user'', content = ''hi''\<rparr>]\<rparr>))
   \<and> messages (run [RevealDone ''Hello.'', MessagesEffect, FetchSettled (Rejected OtherValue)]
                 (initial\<lparr>messages := [\<lparr>role = ''user'', content = ''hi''\<rparr>]\<rparr>)) ! 0
       = \<lparr>role = ''user'', content = ''hi''\<rparr>"
  using history_append_only
    [of "initial\<lparr>messages := [\<lparr>role = ''user'', content = ''hi''\<rparr>]\<rparr>" MessagesEffect
        "[RevealDone ''Hello.'', MessagesEffect, FetchSettled (Rejected OtherValue)]"
        "\<lambda>h. Rejected OtherValue"]
  by simp

subsection \<open>The fade delay\<close>

text \<open>
  Claim C2, as stated, fails: the program computes in binary64, and for a content of nine
  words the delay is not the value of the formula, 6700, but the binary64 number just
  below it.
\<close>

theorem fade_delay_nine_words_counterexample:
  "spec_word_count ''a b c d e f g h i'' = 9
   \<and> getAIMessageFadeDelayMs ''a b c d e f g h i'' = 7366727906099199 / 1099511627776
   \<and> 1000 * max 5 (min 15 (4 + rat_of_nat (spec_word_count ''a b c d e f g h i'') / (200 / 60)))
       = 6700
   \<and> getAIMessageFadeDelayMs ''a b c d e f g h i''
       \<noteq> 1000 * max 5 (min 15
           (4 + rat_of_nat (spec_word_count ''a b c d e f g h i'') / (200 / 60)))"
proof -
  have w: "spec_word_count ''a b c d e f g h i'' = 9"
    by (simp add: spec_word_count_def trim_def isWhiteSpace_def)
  have d: "getAIMessageFadeDelayMs ''a b c d e f g h i'' = 7366727906099199 / 1099511627776"
    by (simp add: fade_delay_by_words words_spec w fade_delay_at_9)
  show ?thesis by (simp add: w d)
qed

text \<open>
  Claim C2, amended. The fade delay of a content is \<open>1000 * clamp (4 + n / (200 / 60))\<close>
  between 5 and 15, for \<open>n\<close> the number of whitespace-separated words of the trimmed content
  (the count the program takes), evaluated in binary64 with every operation rounded. It
  equals the exact value of the formula for every number of words but 9, 18, 23, 31 and 36;
  for these five it falls below the exact value, by at most \<open>1 / 2 ^ 39\<close> of a millisecond.
  A content of 13 words gives exactly 7900, one of 1 word 5000, one of 400 words 15000.
  This is the delay of the timers: in every state the page can reach, a timer of the log
  and a pending timer for index \<open>i\<close> belong to an assistant message and carry the delay
  of the content of message \<open>i\<close>.
\<close>

theorem fade_delay_formula:
  "words text = spec_word_count text
   \<and> getAIMessageFadeDelayMs text
       = num_mul (max 5 (min 15 (num_add 4
           (num_div (of_nat (spec_word_count text)) (num_div 200 60))))) 1000
   \<and> (spec_word_count text \<notin> {9, 18, 23, 31, 36}
      \<longrightarrow> getAIMessageFadeDelayMs text
            = 1000 * max 5 (min 15 (4 + of_nat (spec_word_count text) / (200 / 60))))
   \<and> (spec_word_count text \<in> {9, 18, 23, 31, 36}
      \<longrightarrow> getAIMessageFadeDelayMs text
            < 1000 * max 5 (min 15 (4 + of_nat (spec_word_count text) / (200 / 60))))
   \<and> \<bar>getAIMessageFadeDelayMs text
        - 1000 * max 5 (min 15 (4 + of_nat (spec_word_count text) / (200 / 60)))\<bar> \<le> 1 / 2 ^ 39
   \<and> (spec_word_count text = 13 \<longrightarrow> getAIMessageFadeDelayMs text = 7900)
   \<and> (spec_word_count text = 1 \<longrightarrow> getAIMessageFadeDelayMs text = 5000)
   \<and> (spec_word_count text = 400 \<longrightarrow> getAIMessageFadeDelayMs text = 15000)
   \<and> ((i, d) \<in> set (fadeTimerLog (run evs initial))
        \<or> assistantFadeTimeoutsRef (run evs initial) i = Some d
      \<longrightarrow> i < length (messages (run evs initial))
          \<and> role (messages (run evs initial) ! i) = ''assistant''
          \<and> d = getAIMessageFadeDelayMs (content (messages (run evs initial) ! i)))"
proof (intro conjI impI)
  show "words text = spec_word_count text" by (rule words_spec)
  show "getAIMessageFadeDelayMs text
      = num_mul (max 5 (min 15 (num_add 4
          (num_div (of_nat (spec_word_count text)) (num_div 200 60))))) 1000"
    by (simp add: getAIMessageFadeDelayMs_def getReadingTimeSeconds_def Let_def words_spec)
  show "getAIMessageFadeDelayMs text
      = 1000 * max 5 (min 15 (4 + of_nat (spec_word_count text) / (200 / 60)))"
    if "spec_word_count text \<notin> {9, 18, 23, 31, 36}"
  proof -
    from that have "words text \<notin> {9, 18, 23, 31, 36}" by (simp add: words_spec)
    from fade_delay_at_exact[OF this] show ?thesis
      by (simp only: fade_delay_by_words words_spec)
  qed
  show "getAIMessageFadeDelayMs text
      < 1000 * max 5 (min 15 (4 + of_nat (spec_word_count text) / (200 / 60)))"
    if "spec_word_count text \<in> {9, 18, 23, 31, 36}"
  proof -
    from that have "words text \<in> {9, 18, 23, 31, 36}" by (simp add: words_spec)
    from fade_delay_at_below[OF this] show ?thesis
      by (simp only: fade_delay_by_words words_spec)
  qed
  show "\<bar>getAIMessageFadeDelayMs text
      - 1000 * max 5 (min 15 (4 + of_nat (spec_word_count text) / (200 / 60)))\<bar> \<le> 1 / 2 ^ 39"
    using fade_delay_at_error[of "words text"] by (simp only: fade_delay_by_words words_spec)
  show "getAIMessageFadeDelayMs text = 7900" if "spec_word_count text = 13"
    using that by (simp add: fade_delay_by_words words_spec fade_delay_at_13)
  show "getAIMessageFadeDelayMs text = 5000" if "spec_word_count text = 1"
    using that by (simp add: fade_delay_by_words words_spec fade_delay_at_low)
  show "getAIMessageFadeDelayMs text = 15000" if "spec_word_count text = 400"
    using that by (simp add: fade_delay_by_words words_spec fade_delay_at_high)
next
  assume "(i, d) \<in> set (fadeTimerLog (run evs initial))
      \<or> assistantFadeTimeoutsRef (run evs initial) i = Some d"
  with reachable_timers[of evs] have mem: "(i, d) \<in> set (fadeTimerLog (run evs initial))"
    by blast
  with reachable_timers[of evs]
  have "i < length (messages (run evs initial))
      \<and> role (messages (run evs initial) ! i) = ''assistant''
      \<and> d = getAIMessageFadeDelayMs (content (messages (run evs initial) ! i))"
    by blast
  then show "i < length (messages (run evs initial))"
    and "role (messages (run evs initial) ! i) = ''assistant''"
    and "d = getAIMessageFadeDelayMs (content (messages (run evs initial) ! i))"
    by simp_all
qed

theorem fade_delay_formula_witness:
  "spec_word_count ''hello hello hello hello hello hello hello hello hello hello hello hello hello'' = 13
   \<and> getAIMessageFadeDelayMs
       ''hello hello hello hello hello hello hello hello hello hello hello hello hello'' = 7900
   \<and> spec_word_count ''hello'' = 1
   \<and> getAIMessageFadeDelayMs ''hello'' = 5000
   \<and> spec_word_count (concat (replicate 400 ''a '')) = 400
   \<and> getAIMessageFadeDelayMs (concat (replicate 400 ''a '')) = 15000
   \<and> spec_word_count ''a b c d e f g h i'' \<in> {9, 18, 23, 31, 36}
   \<and> getAIMessageFadeDelayMs ''a b c d e f g h i'' < 6700
   \<and> spec_word_count ''a a a a a a a'' \<notin> {9, 18, 23, 31, 36}
   \<and> getAIMessageFadeDelayMs ''a a a a a a a'' = 6100
   \<and> fadeTimerLog
        (run [InputChanged ''hi'', InputKey ''Enter'' False, RevealDone ''a a a a a a a'',
              MessagesEffect] initial)
       = [(1, 6100)]"
proof -
  have a: "spec_word_count
      ''hello hello hello hello hello hello hello hello hello hello hello hello hello'' = 13"
    by (simp add: spec_word_count_def trim_def isWhiteSpace_def)
  have b: "spec_word_count ''hello'' = 1"
    by (simp add: spec_word_count_def trim_def isWhiteSpace_def)
  have c: "spec_word_count (concat (replicate 400 ''a '')) = 400"
    using words_repeat[of 400] by (simp only: words_spec)
  have e: "spec_word_count ''a b c d e f g h i'' = 9"
    by (simp add: spec_word_count_def trim_def isWhiteSpace_def)
  have f: "spec_word_count ''a a a a a a a'' = 7"
    by (simp add: spec_word_count_def trim_def isWhiteSpace_def)
  let ?s = "run [InputChanged ''hi'', InputKey ''Enter'' False, RevealDone ''a a a a a a a'',
                 MessagesEffect] initial"
  have m: "messages ?s
      = [\<lparr>role = ''user'', content = ''hi''\<rparr>, \<lparr>role = ''assistant'', content = ''a a a a a a a''\<rparr>]"
    by (simp add: run_def initial_def sendMessage_begin_def trim_def isWhiteSpace_def Let_def)
  have l: "fadeTimerLog ?s = [(1, getAIMessageFadeDelayMs ''a a a a a a a'')]"
    by (simp add: run_def initial_def sendMessage_begin_def trim_def isWhiteSpace_def Let_def
        reveal_done_def schedule_fades_def schedule_one_def)
  have "getAIMessageFadeDelayMs
      ''hello hello hello hello hello hello hello hello hello hello hello hello hello'' = 7900"
    using fade_delay_formula
      [of "''hello hello hello hello hello hello hello hello hello hello hello hello hello''"] a
    by blast
  moreover have "getAIMessageFadeDelayMs ''hello'' = 5000"
    using fade_delay_formula [of "''hello''"] b by blast
  moreover have "getAIMessageFadeDelayMs (concat (replicate 400 ''a '')) = 15000"
    using fade_delay_formula [of "concat (replicate 400 ''a '')"] c by blast
  moreover have "getAIMessageFadeDelayMs ''a b c d e f g h i'' < 6700"
  proof -
    have "spec_word_count ''a b c d e f g h i'' \<in> {9, 18, 23, 31, 36}" by (simp add: e)
    with fade_delay_formula [of "''a b c d e f g h i''"]
    have "getAIMessageFadeDelayMs ''a b c d e f g h i''
        < 1000 * max 5 (min 15 (4 + of_nat (spec_word_count ''a b c d e f g h i'') / (200 / 60)))"
      by blast
    then show ?thesis by (simp add: e)
  qed
  moreover have g: "getAIMessageFadeDelayMs ''a a a a a a a'' = 6100"
  proof -
    have "spec_word_count ''a a a a a a a'' \<notin> {9, 18, 23, 31, 36}" by (simp add: f)
    with fade_delay_formula [of "''a a a a a a a''"]
    have "getAIMessageFadeDelayMs ''a a a a a a a''
        = 1000 * max 5 (min 15 (4 + of_nat (spec_word_count ''a a a a a a a'') / (200 / 60)))"
      by blast
    then show ?thesis by (simp add: f)
  qed
  moreover have "fadeTimerLog ?s = [(1, 6100)]"
  proof -
    have "(1, getAIMessageFadeDelayMs ''a a a a a a a'') \<in> set (fadeTimerLog ?s)"
      by (simp add: l)
    with fade_delay_formula
      [of "''hello''" 1 "getAIMessageFadeDelayMs ''a a a a a a a''"
          "[InputChanged ''hi'', InputKey ''Enter'' False, RevealDone ''a a a a a a a'',
            MessagesEffect]"]
    have "getAIMessageFadeDelayMs ''a a a a a a a''
        = getAIMessageFadeDelayMs (content (messages ?s ! 1))"
      by blast
    then show ?thesis by (simp add: l g)
  qed
  ultimately show ?thesis using a b c e f by simp
qed

text \<open>
  Claim C3, as stated, fails: the delay does not grow with the length of the content. A
  content of seven one-letter words is shorter than a single word of fourteen letters and
  fades later.
\<close>

theorem fade_delay_length_counterexample:
  "length ''a a a a a a a'' \<le> length ''aaaaaaaaaaaaaa''
   \<and> getAIMessageFadeDelayMs ''a a a a a a a'' = 6100
   \<and> getAIMessageFadeDelayMs ''aaaaaaaaaaaaaa'' = 5000
   \<and> \<not> getAIMessageFadeDelayMs ''a a a a a a a'' \<le> getAIMessageFadeDelayMs ''aaaaaaaaaaaaaa''"
proof -
  have "words ''a a a a a a a'' = 7"
    by (simp add: words_def trim_def split_ws.simps isWhiteSpace_def)
  then have a: "getAIMessageFadeDelayMs ''a a a a a a a'' = 6100"
    by (simp add: fade_delay_by_words fade_delay_at_7)
  have "words ''aaaaaaaaaaaaaa'' = 1"
    by (simp add: words_def trim_def split_ws.simps isWhiteSpace_def)
  then have b: "getAIMessageFadeDelayMs ''aaaaaaaaaaaaaa'' = 5000"
    by (simp add: fade_delay_by_words fade_delay_at_low)
  show ?thesis by (simp add: a b)
qed

text \<open>
  Claim C3, amended. The delay is monotonic in the number of words of the content: a
  content with no more words than another fades no later. For every content the delay
  lies between 5000 and 15000 milliseconds, both included.
\<close>

theorem fade_delay_monotone_in_words:
  "(words s \<le> words t \<longrightarrow> getAIMessageFadeDelayMs s \<le> getAIMessageFadeDelayMs t)
   \<and> 5000 \<le> getAIMessageFadeDelayMs s \<and> getAIMessageFadeDelayMs s \<le> 15000"
  using fade_delay_at_mono[of "words s" "words t"] fade_delay_at_range[of "words s"]
  by (simp add: fade_delay_by_words)

theorem fade_delay_monotone_in_words_witness:
  "words ''aaaaaaaaaaaaaa'' \<le> words ''a a a a a a a''
   \<and> getAIMessageFadeDelayMs ''aaaaaaaaaaaaaa'' \<le> getAIMessageFadeDelayMs ''a a a a a a a''"
proof -
  have "words ''a a a a a a a'' = 7"
    by (simp add: words_def trim_def split_ws.simps isWhiteSpace_def)
  moreover have "words ''aaaaaaaaaaaaaa'' = 1"
    by (simp add: words_def trim_def split_ws.simps isWhiteSpace_def)
  ultimately show ?thesis
    using fade_delay_monotone_in_words [of "''aaaaaaaaaaaaaa''" "''a a a a a a a''"]
    by simp
qed

subsection \<open>The chat relay\<close>




text \<open>
  Claim C5, as stated, fails in five ways. The input sent is the content of the final
  user turn with the white space at its ends removed, not the content as it came. When
  starting the session throws, as it does for a history that the session does not accept,
  nothing is sent. When the list does not end in the user turn, the history holds that
  very turn, which is then sent again. An element that is not a turn as declared, here a
  user turn whose content is a number, makes the handler throw before the session is
  started. And without a credential nothing is sent at all.
\<close>

theorem relay_input_counterexample:
  "snd (POST (Some ''secret'') (\<lambda>e. ''TypeError'')
          (Json (JObject [(''messages'',
             JArray [JObject [(''role'', JString ''user''), (''content'', JString '' hi '')]])]))
          (\<lambda>history. Chat (\<lambda>input. ModelText ''Hello.'')))
     = [StartChat [], ChatSendMessage ''hi'']
   \<and> ''hi'' \<noteq> '' hi ''
   \<and> snd (POST (Some ''secret'') (\<lambda>e. ''TypeError'')
          (Json (JObject [(''messages'',
             JArray [JObject [(''role'', JString ''assistant''), (''content'', JString ''Hello.'')],
                     JObject [(''role'', JString ''user''), (''content'', JString ''hi'')]])]))
          (\<lambda>history. case history of
               [] \<Rightarrow> Chat (\<lambda>input. ModelText ''Hello.'')
             | (r, t) # _ \<Rightarrow>
                 if r = ''user'' then Chat (\<lambda>input. ModelText ''Hello.'')
                 else StartChatThrows (ErrorObject ''First content should be with role user.'')))
     = [StartChat [(''model'', Some (JString ''Hello.''))]]
   \<and> snd (POST (Some ''secret'') (\<lambda>e. ''TypeError'')
          (Json (JObject [(''messages'',
             JArray [JObject [(''role'', JString ''user''), (''content'', JString ''hi'')],
                     JObject [(''role'', JString ''assistant''), (''content'', JString ''Hello.'')]])]))
          (\<lambda>history. Chat (\<lambda>input. ModelText ''Hello.'')))
     = [StartChat [(''user'', Some (JString ''hi''))], ChatSendMessage ''hi'']
   \<and> POST (Some ''secret'') (\<lambda>e. ''TypeError'')
          (Json (JObject [(''messages'',
             JArray [JObject [(''role'', JString ''user''), (''content'', JNumber 5)]])]))
          (\<lambda>history. Chat (\<lambda>input. ModelText ''Hello.''))
     = (\<lparr>status = 500, payload = ErrorBody ''TypeError''\<rparr>, [])
   \<and> snd (POST None (\<lambda>e. ''TypeError'')
          (Json (JObject [(''messages'',
             JArray [JObject [(''role'', JString ''user''), (''content'', JString '' hi '')]])]))
          (\<lambda>history. Chat (\<lambda>input. ModelText ''Hello.'')))
     = []"
  by (simp add: POST_def request_messages_def toErrorMessage_def trim_def isWhiteSpace_def)

text \<open>
  Claim C5, amended. When the credential is configured, for every list of turns as
  declared that ends in a user turn whose content is not blank, the relay starts the model
  session with the up-to-20 most recent prior turns, the final turn excluded, in order,
  with role \<^verbatim>\<open>"user"\<close> kept and every other role mapped to \<^verbatim>\<open>"model"\<close>; and, unless
  starting the session throws, it sends the content of the final user turn, trimmed, as
  the new input, and nothing else.
\<close>

theorem relay_forwards_history_and_input:
  assumes "apiKey = Some k" and "k \<noteq> []"
    and "request_messages parsed = Some elems" and "map read_turn elems = map Some msgs"
    and "msgs \<noteq> []" and "role (last msgs) = ''user''" and "trim (content (last msgs)) \<noteq> []"
  shows
    "\<exists>recent. suffix recent (butlast msgs) \<and> length recent = min 20 (length msgs - 1)
       \<and> (case model (map (\<lambda>t. (if role t = ''user'' then ''user'' else ''model'',
                                 Some (JString (content t)))) recent) of
            StartChatThrows err \<Rightarrow>
              snd (POST apiKey engine (Json parsed) model)
                = [StartChat (map (\<lambda>t. (if role t = ''user'' then ''user'' else ''model'',
                                         Some (JString (content t)))) recent)]
          | Chat chat_sendMessage \<Rightarrow>
              snd (POST apiKey engine (Json parsed) model)
                = [StartChat (map (\<lambda>t. (if role t = ''user'' then ''user'' else ''model'',
                                         Some (JString (content t)))) recent),
                   ChatSendMessage (trim (content (last msgs)))])"
proof -
  let ?recent = "drop (length (butlast msgs) - 20) (butlast msgs)"
  have u: "final_user_turn msgs = Some (last msgs)"
    using assms(5,6) by (rule final_user_turn_last)
  have "suffix ?recent (butlast msgs)" by (rule last_twenty(1))
  moreover have "length ?recent = min 20 (length msgs - 1)"
    using last_twenty(2)[of "butlast msgs"] by simp
  moreover have "case model (map (\<lambda>t. (if role t = ''user'' then ''user'' else ''model'',
                                 Some (JString (content t)))) ?recent) of
            StartChatThrows err \<Rightarrow>
              snd (POST apiKey engine (Json parsed) model)
                = [StartChat (map (\<lambda>t. (if role t = ''user'' then ''user'' else ''model'',
                                         Some (JString (content t)))) ?recent)]
          | Chat chat_sendMessage \<Rightarrow>
              snd (POST apiKey engine (Json parsed) model)
                = [StartChat (map (\<lambda>t. (if role t = ''user'' then ''user'' else ''model'',
                                         Some (JString (content t)))) ?recent),
                   ChatSendMessage (trim (content (last msgs)))]"
    unfolding POST_turns_forward[OF assms(1-4) u assms(7)]
    by (simp add: Let_def del: length_butlast split: chat_start.splits model_result.splits)
  ultimately show ?thesis by blast
qed

theorem relay_forwards_history_and_input_witness:
  "\<exists>recent :: message list. length recent = 2
     \<and> snd (POST (Some ''secret'') (\<lambda>e. ''TypeError'')
          (Json (JObject [(''messages'',
             JArray [JObject [(''role'', JString ''user''), (''content'', JString ''hi'')],
                     JObject [(''role'', JString ''assistant''), (''content'', JString ''Hello.'')],
                     JObject [(''role'', JString ''user''),
                              (''content'', JString '' who are you? '')]])]))
          (\<lambda>history. Chat (\<lambda>input. ModelThrows OtherValue)))
       = [StartChat (map (\<lambda>t. (if role t = ''user'' then ''user'' else ''model'',
                                Some (JString (content t)))) recent),
          ChatSendMessage ''who are you?'']"
proof -
  let ?parsed = "JObject [(''messages'',
             JArray [JObject [(''role'', JString ''user''), (''content'', JString ''hi'')],
                     JObject [(''role'', JString ''assistant''), (''content'', JString ''Hello.'')],
                     JObject [(''role'', JString ''user''),
                              (''content'', JString '' who are you? '')]])]"
  let ?elems = "[JObject [(''role'', JString ''user''), (''content'', JString ''hi'')],
                 JObject [(''role'', JString ''assistant''), (''content'', JString ''Hello.'')],
                 JObject [(''role'', JString ''user''), (''content'', JString '' who are you? '')]]"
  let ?msgs = "[\<lparr>role = ''user'', content = ''hi''\<rparr>,
                \<lparr>role = ''assistant'', content = ''Hello.''\<rparr>,
                \<lparr>role = ''user'', content = '' who are you? ''\<rparr>]"
  let ?m = "\<lambda>history :: chat_content list. Chat (\<lambda>input. ModelThrows OtherValue)"
  let ?e = "\<lambda>e :: type_error. ''TypeError''"
  have k: "Some ''secret'' = Some ''secret''" "''secret'' \<noteq> []" by simp_all
  have p: "request_messages ?parsed = Some ?elems" by (simp add: request_messages_def)
  have r: "map read_turn ?elems = map Some ?msgs" by (simp add: read_turn_def)
  have n: "?msgs \<noteq> []" by simp
  have l: "role (last ?msgs) = ''user''" by simp
  have t: "trim '' who are you? '' = ''who are you?''"
    by (simp add: trim_def isWhiteSpace_def)
  then have t': "trim (content (last ?msgs)) \<noteq> []" by simp
  from relay_forwards_history_and_input[OF k p r n l t', where model = ?m and engine = ?e]
  obtain recent where
    "suffix recent (butlast ?msgs) \<and> length recent = min 20 (length ?msgs - 1)
       \<and> (case ?m (map (\<lambda>t. (if role t = ''user'' then ''user'' else ''model'',
                              Some (JString (content t)))) recent) of
            StartChatThrows err \<Rightarrow>
              snd (POST (Some ''secret'') ?e (Json ?parsed) ?m)
                = [StartChat (map (\<lambda>t. (if role t = ''user'' then ''user'' else ''model'',
                                         Some (JString (content t)))) recent)]
          | Chat chat_sendMessage \<Rightarrow>
              snd (POST (Some ''secret'') ?e (Json ?parsed) ?m)
                = [StartChat (map (\<lambda>t. (if role t = ''user'' then ''user'' else ''model'',
                                         Some (JString (content t)))) recent),
                   ChatSendMessage (trim (content (last ?msgs)))])" ..
  then have "length recent = 2
     \<and> snd (POST (Some ''secret'') ?e (Json ?parsed) ?m)
       = [StartChat (map (\<lambda>t. (if role t = ''user'' then ''user'' else ''model'',
                                Some (JString (content t)))) recent),
          ChatSendMessage ''who are you?'']"
    by (simp add: t)
  then show ?thesis by blast
qed

text \<open>
  Claim C9, as stated, fails for the same two reasons as C4: without a credential the
  answer is 500, and so it is for a list that holds \<^verbatim>\<open>null\<close> beside a turn that is not
  the user's.
\<close>

theorem relay_no_user_counterexample:
  "POST None (\<lambda>e. ''TypeError'')
       (Json (JObject [(''messages'',
          JArray [JObject [(''role'', JString ''assistant''), (''content'', JString ''Hello.'')]])]))
       (\<lambda>history. Chat (\<lambda>input. ModelText ''Hello.''))
     = (\<lparr>status = 500, payload = ErrorBody ''GEMINI_API_KEY is not configured.''\<rparr>, [])
   \<and> POST (Some ''secret'') (\<lambda>e. ''TypeError'')
       (Json (JObject [(''messages'',
          JArray [JObject [(''role'', JString ''assistant''), (''content'', JString ''Hello.'')],
                  JNull])]))
       (\<lambda>history. Chat (\<lambda>input. ModelText ''Hello.''))
     = (\<lparr>status = 500, payload = ErrorBody ''TypeError''\<rparr>, [])"
  by (simp add: POST_def request_messages_def toErrorMessage_def)

text \<open>
  Claim C9, amended. When the credential is configured, a message list that is not empty,
  holds no \<^verbatim>\<open>null\<close> and holds no element with role \<^verbatim>\<open>"user"\<close> is answered with 400 and
  \<^verbatim>\<open>No user message content.\<close>, and the model session is neither started nor sent
  anything.
\<close>

theorem relay_rejects_list_without_user:
  assumes "apiKey = Some k" and "k \<noteq> []"
    and "request_messages parsed = Some elems" and "elems \<noteq> []"
    and "JNull \<notin> set elems"
    and "\<forall>m \<in> set elems. get_property m ''role'' \<noteq> Some (JString ''user'')"
  shows "POST apiKey engine (Json parsed) model
    = (\<lparr>status = 400, payload = ErrorBody ''No user message content.''\<rparr>, [])"
  using assms by (rule POST_no_user_role)

theorem relay_rejects_list_without_user_witness:
  "list_all (\<lambda>m. get_property m ''role'' \<noteq> Some (JString ''user''))
       [JObject [(''role'', JString ''assistant''), (''content'', JString ''Hello.'')],
        JObject [(''role'', JString ''system''), (''content'', JString ''hi'')],
        JNumber 5]
   \<and> POST (Some ''secret'') (\<lambda>e. ''TypeError'')
        (Json (JObject [(''messages'',
           JArray [JObject [(''role'', JString ''assistant''), (''content'', JString ''Hello.'')],
                   JObject [(''role'', JString ''system''), (''content'', JString ''hi'')],
                   JNumber 5])]))
        (\<lambda>history. Chat (\<lambda>input. ModelText ''Hello.''))
       = (\<lparr>status = 400, payload = ErrorBody ''No user message content.''\<rparr>, [])"
proof -
  let ?elems = "[JObject [(''role'', JString ''assistant''), (''content'', JString ''Hello.'')],
                 JObject [(''role'', JString ''system''), (''content'', JString ''hi'')],
                 JNumber 5]"
  have k: "Some ''secret'' = Some ''secret''" "''secret'' \<noteq> []" by simp_all
  have p: "request_messages (JObject [(''messages'', JArray ?elems)]) = Some ?elems"
    by (simp add: request_messages_def)
  have n: "?elems \<noteq> []" by simp
  have z: "JNull \<notin> set ?elems" by simp
  have r: "\<forall>m \<in> set ?elems. get_property m ''role'' \<noteq> Some (JString ''user'')" by simp
  from relay_rejects_list_without_user
    [OF k p n z r, of "\<lambda>e. ''TypeError''" "\<lambda>history. Chat (\<lambda>input. ModelText ''Hello.'')"]
  show ?thesis by simp
qed

end
